theory Spec2Isabelle
  imports Main "HOL-Library.Word"
begin

section \<open>Identifiers, source locations and the syntax tree\<close>

text \<open>
  An \<open>Identifier\<close> is an interned string; the default-constructed one is invalid
  (\<open>None\<close>).  A source location is a position in a buffer (\<open>None\<close>: invalid), a
  source rng a pair of locations.
\<close>

type_synonym Identifier = "string option"
type_synonym SMLoc = "nat option"
type_synonym SMRange = "SMLoc \<times> SMLoc"

datatype NodeKind = FunctionDeclarationKind | FunctionExpressionKind | ArrowFunctionExpressionKind

text \<open>
  The nodes that occur in a formal parameter list: an identifier, a rest element
  around its target, an assignment pattern (target and default initializer), and any
  other binding pattern or initializer expression, which this file never looks into.
\<close>

datatype Node =
    IdentifierNode string
  | RestElementNode Node
  | AssignmentPatternNode Node Node
  | PatternNode nat
  | ExpressionNode nat

text \<open>\<open>sem::FunctionInfo\<close>, apart from its list of closures, which is kept in the function node.\<close>

record FunctionInfo =
  paramNames :: "string list"
  varDecls :: "string list"
  containsArrowFunctions :: bool
  containsArrowFunctionsUsingArguments :: bool
  semLabels :: nat

record FunctionAttrs =
  nodeKind :: NodeKind
  node_id :: "string option"
  params :: "Node list"
  generator :: bool
  strictness :: bool
  nodeSourceRange :: SMRange
  bodySourceRange :: SMRange
  isLazyFunctionBody :: bool
  bufferId :: nat
  semInfo :: FunctionInfo

text \<open>
  A function-like node carries its attributes, the function declarations hoisted to
  its top (\<open>semInfo->closures\<close>) and its body.  A statement of the body is a function
  expression or an arrow function (each with the name hint of its use), or any other
  statement.  A function declaration in statement position was hoisted and is lowered
  from \<open>closures\<close>, so it is not repeated in the body.
\<close>

datatype FunctionLikeNode =
    FunctionLikeNode (attrs: FunctionAttrs) (closures: "FunctionLikeNode list") (body: "Statement list")
and Statement =
    FunctionExpressionStmt FunctionLikeNode Identifier
  | ArrowFunctionExpressionStmt FunctionLikeNode Identifier
  | OtherStmt nat

definition getSemInfo :: "FunctionLikeNode \<Rightarrow> FunctionInfo" where
  "getSemInfo n = semInfo (attrs n)"

definition getParams :: "FunctionLikeNode \<Rightarrow> Node list" where
  "getParams n = params (attrs n)"

section \<open>The IR under construction\<close>

datatype Error =
    AssertionFailure string
  | NullDereference string
  | NoInsertionPoint
  | LoopDoesNotTerminate

datatype Value =
    LiteralUndefined
  | LiteralNumber nat
  | LiteralString string
  | InstructionV nat
  | ParameterV nat Identifier
  | VariableV nat
  | GlobalObjectPropertyV Identifier bool
  | FunctionV nat
  | BasicBlockV nat

datatype Instruction =
    StartGeneratorInst
  | AllocStackInst Identifier
  | ResumeGeneratorInst Value nat
  | CreateFunctionInst nat
  | CreateGeneratorInst nat
  | StoreFrameInst Value nat
  | StorePropertyInst Value Identifier
  | TryLoadGlobalPropertyInst Identifier
  | LoadPropertyInst Identifier
  | LoadFrameInst nat
  | GetNewTargetInst
  | CreateArgumentsInst
  | BranchInst nat
  | ReturnInst Value
  | ThrowInst Value
  | UnreachableInst
  | CallInst Value Value "Value list"
  | HermesInternalCallInst string Value "Value list"
  | LRefStoreInst Node Value
  | OptionalInitInst Value Node
  | OtherInst nat

datatype DefinitionKind = ES5Function | ES6Arrow

datatype FunctionValueKind = FunctionKind | GeneratorFunctionKind | GeneratorInnerFunctionKind

record LazySource =
  lsBufferId :: nat
  lsNodeKind :: "NodeKind option"
  lsFunctionRange :: SMRange

type_synonym NameTable = "(Identifier \<times> Value) list list"

record IRFunction =
  originalName :: Identifier
  definitionKind :: DefinitionKind
  valueKind :: FunctionValueKind
  strictMode :: bool
  fnSourceRange :: SMRange
  isGlobalScope :: bool
  parameters :: "Identifier list"
  basicBlocks :: "nat list"
  lazyClosureAlias :: "Value option"
  lazyScope :: "NameTable option"
  lazySource :: LazySource
  statementCount :: "nat option"

record Variable =
  varParent :: nat
  varName :: Identifier

record BasicBlock =
  bbParent :: nat
  bbInsts :: "(nat \<times> Instruction) list"

datatype GotoLabel = UnresolvedLabel | ResolvedLabel nat nat

record FunctionContext =
  ctxSemInfo :: "FunctionInfo option"
  builderSaveState :: "nat option \<times> SMLoc"
  ctxFunction :: nat
  ctxScope :: nat
  labels :: "GotoLabel list"
  capturedThis :: "Value option"
  capturedNewTarget :: "Value option"
  capturedArguments :: "Value option"
  entryTerminator :: "nat option"
  anonymousLabelCounter :: nat

text \<open>
  The state of one lowering session: the module (functions, and the tables of the
  basic blocks and variables they own, each referred to by its index), the counter
  that numbers instructions, the builder's insertion block and location, the scoped
  name table (innermost scope first) and the stack of function contexts (the current
  one first; the previous context of a context is the rest of the stack).
\<close>

record IRGenState =
  functionList :: "IRFunction list"
  blocks :: "BasicBlock list"
  variables :: "Variable list"
  instCount :: nat
  insertionBlock :: "nat option"
  location :: SMLoc
  nameTable :: NameTable
  functionContext :: "FunctionContext list"

type_synonym 'a irgen = "IRGenState \<Rightarrow> Error + ('a \<times> IRGenState)"

definition okR :: "'a \<Rightarrow> 'a irgen" where
  "okR x s = Inr (x, s)"

definition failR :: "Error \<Rightarrow> 'a irgen" where
  "failR e s = Inl e"

definition bindR :: "'a irgen \<Rightarrow> ('a \<Rightarrow> 'b irgen) \<Rightarrow> 'b irgen" where
  "bindR m f s = (case m s of Inl e \<Rightarrow> Inl e | Inr (x, s') \<Rightarrow> f x s')"

definition thenR :: "'a irgen \<Rightarrow> 'b irgen \<Rightarrow> 'b irgen" where
  "thenR m k = bindR m (\<lambda>_. k)"

definition modifyR :: "(IRGenState \<Rightarrow> IRGenState) \<Rightarrow> unit irgen" where
  "modifyR f s = Inr ((), f s)"

subsection \<open>The builder\<close>

text \<open>
  Modelled from the spec: the IR builder, an external collaborator that this file
  only calls.  A function owns a parameter list and a sequence of basic blocks, a
  basic block an ordered instruction sequence.  Creating a function, block or variable
  appends it to its table and returns its index; creating an instruction appends it
  to the insertion block under a fresh number and returns it as a value.
\<close>

definition makeFunction ::
  "Identifier \<Rightarrow> DefinitionKind \<Rightarrow> FunctionValueKind \<Rightarrow> bool \<Rightarrow> SMRange \<Rightarrow> bool \<Rightarrow> nat irgen" where
  "makeFunction name dk vk strict rng isGlobal s =
     Inr (length (functionList s),
          s\<lparr>functionList := functionList s @
             [\<lparr>originalName = name, definitionKind = dk, valueKind = vk, strictMode = strict,
               fnSourceRange = rng, isGlobalScope = isGlobal, parameters = [],
               basicBlocks = [], lazyClosureAlias = None, lazyScope = None,
               lazySource = \<lparr>lsBufferId = 0, lsNodeKind = None, lsFunctionRange = (None, None)\<rparr>,
               statementCount = Some 0\<rparr>]\<rparr>)"

definition createFunction :: "Identifier \<Rightarrow> DefinitionKind \<Rightarrow> bool \<Rightarrow> SMRange \<Rightarrow> bool \<Rightarrow> nat irgen" where
  "createFunction name dk strict rng isGlobal = makeFunction name dk FunctionKind strict rng isGlobal"

definition createGeneratorFunction :: "Identifier \<Rightarrow> DefinitionKind \<Rightarrow> bool \<Rightarrow> nat irgen" where
  "createGeneratorFunction name dk strict =
     makeFunction name dk GeneratorFunctionKind strict (None, None) False"

definition createGeneratorInnerFunction :: "Identifier \<Rightarrow> DefinitionKind \<Rightarrow> bool \<Rightarrow> SMRange \<Rightarrow> nat irgen" where
  "createGeneratorInnerFunction name dk strict rng =
     makeFunction name dk GeneratorInnerFunctionKind strict rng False"

definition updFunction :: "nat \<Rightarrow> (IRFunction \<Rightarrow> IRFunction) \<Rightarrow> IRGenState \<Rightarrow> IRGenState" where
  "updFunction f g s = s\<lparr>functionList := (functionList s)[f := g (functionList s ! f)]\<rparr>"

definition updBlock :: "nat \<Rightarrow> (BasicBlock \<Rightarrow> BasicBlock) \<Rightarrow> IRGenState \<Rightarrow> IRGenState" where
  "updBlock b g s = s\<lparr>blocks := (blocks s)[b := g (blocks s ! b)]\<rparr>"

definition createParameter :: "nat \<Rightarrow> Identifier \<Rightarrow> Value irgen" where
  "createParameter f name s =
     Inr (ParameterV f name, updFunction f (\<lambda>fn. fn\<lparr>parameters := parameters fn @ [name]\<rparr>) s)"

definition createBasicBlock :: "nat \<Rightarrow> nat irgen" where
  "createBasicBlock f s =
     Inr (length (blocks s),
          updFunction f (\<lambda>fn. fn\<lparr>basicBlocks := basicBlocks fn @ [length (blocks s)]\<rparr>)
            (s\<lparr>blocks := blocks s @ [\<lparr>bbParent = f, bbInsts = []\<rparr>]\<rparr>))"

definition createVariable :: "nat \<Rightarrow> Identifier \<Rightarrow> Value irgen" where
  "createVariable f name s =
     Inr (VariableV (length (variables s)),
          s\<lparr>variables := variables s @ [\<lparr>varParent = f, varName = name\<rparr>]\<rparr>)"

definition setInsertionBlock :: "nat \<Rightarrow> unit irgen" where
  "setInsertionBlock b = modifyR (\<lambda>s. s\<lparr>insertionBlock := Some b\<rparr>)"

definition setLocation :: "SMLoc \<Rightarrow> unit irgen" where
  "setLocation l = modifyR (\<lambda>s. s\<lparr>location := l\<rparr>)"

definition getInsertionBlock :: "nat irgen" where
  "getInsertionBlock s =
     (case insertionBlock s of None \<Rightarrow> Inl NoInsertionPoint | Some b \<Rightarrow> Inr (b, s))"

definition getFunction :: "nat irgen" where
  "getFunction = bindR getInsertionBlock (\<lambda>b s. Inr (bbParent (blocks s ! b), s))"

definition insertInst :: "Instruction \<Rightarrow> Value irgen" where
  "insertInst i =
     bindR getInsertionBlock (\<lambda>b s.
       Inr (InstructionV (instCount s),
            updBlock b (\<lambda>bb. bb\<lparr>bbInsts := bbInsts bb @ [(instCount s, i)]\<rparr>)
              (s\<lparr>instCount := Suc (instCount s)\<rparr>)))"

definition getThisParameter :: "nat \<Rightarrow> Value irgen" where
  "getThisParameter f s =
     (if Some ''this'' \<in> set (parameters (functionList s ! f))
      then Inr (ParameterV f (Some ''this''), s)
      else Inl (NullDereference ''thisParameter''))"


definition getFunctionRec :: "nat \<Rightarrow> IRFunction irgen" where
  "getFunctionRec f s = Inr (functionList s ! f, s)"

definition createGlobalObjectProperty :: "Identifier \<Rightarrow> bool \<Rightarrow> Value irgen" where
  "createGlobalObjectProperty name declared = okR (GlobalObjectPropertyV name declared)"

subsection \<open>The scoped name table\<close>

text \<open>
  Modelled from the spec: the scope/name table, an external collaborator with
  push-scope, insert and lookup operations.  A lookup finds the innermost binding.
\<close>

definition lookupName :: "Identifier \<Rightarrow> Value option irgen" where
  "lookupName name s = Inr (map_of (concat (nameTable s)) name, s)"

definition insertName :: "Identifier \<Rightarrow> Value \<Rightarrow> unit irgen" where
  "insertName name v s =
     (case nameTable s of
        [] \<Rightarrow> Inl (AssertionFailure ''no current scope'')
      | sc # rest \<Rightarrow> Inr ((), s\<lparr>nameTable := ((name, v) # sc) # rest\<rparr>))"

definition insertIntoScope :: "nat \<Rightarrow> Identifier \<Rightarrow> Value \<Rightarrow> unit irgen" where
  "insertIntoScope sc name v s =
     (if sc < length (nameTable s)
      then let i = length (nameTable s) - 1 - sc
           in Inr ((), s\<lparr>nameTable := (nameTable s)[i := (name, v) # (nameTable s ! i)]\<rparr>)
      else Inl (AssertionFailure ''no such scope''))"

definition pushScope :: "unit irgen" where
  "pushScope = modifyR (\<lambda>s. s\<lparr>nameTable := [] # nameTable s\<rparr>)"

definition popScope :: "unit irgen" where
  "popScope = modifyR (\<lambda>s. s\<lparr>nameTable := tl (nameTable s)\<rparr>)"

definition saveCurrentScope :: "NameTable irgen" where
  "saveCurrentScope s = Inr (nameTable s, s)"

subsection \<open>Helpers of the lowering that live in other files\<close>

text \<open>
  Modelled from the spec: storing into a storage location is a frame store for a
  variable and a property store for a property of the global object; loading is the
  converse.
\<close>

definition emitStore :: "Value \<Rightarrow> Value \<Rightarrow> Value irgen" where
  "emitStore storedValue ptr =
     (case ptr of
        VariableV var \<Rightarrow> insertInst (StoreFrameInst storedValue var)
      | GlobalObjectPropertyV name _ \<Rightarrow> insertInst (StorePropertyInst storedValue name)
      | _ \<Rightarrow> failR (AssertionFailure ''unvalid store target''))"

definition emitLoad :: "Value \<Rightarrow> Value irgen" where
  "emitLoad from =
     (case from of
        VariableV var \<Rightarrow> insertInst (LoadFrameInst var)
      | GlobalObjectPropertyV name declared \<Rightarrow>
          (if declared then insertInst (LoadPropertyInst name)
           else insertInst (TryLoadGlobalPropertyInst name))
      | _ \<Rightarrow> failR (AssertionFailure ''unvalid load source''))"

text \<open>
  Modelled from the spec: a storage slot is created for a name if none exists yet at
  function scope; the result says whether it was created.  In the global scope the
  storage is a property of the global object instead of a frame variable.
\<close>

definition declareVariableOrGlobalProperty :: "nat \<Rightarrow> Identifier \<Rightarrow> (Value \<times> bool) irgen" where
  "declareVariableOrGlobalProperty inFunc name =
     bindR (lookupName name) (\<lambda>found.
     bindR (getFunctionRec inFunc) (\<lambda>fn s.
       let declared =
         (case found of
            Some (VariableV var) \<Rightarrow> varParent (variables s ! var) = inFunc
          | Some _ \<Rightarrow> isGlobalScope fn
          | None \<Rightarrow> False)
       in if declared then Inr ((the found, False), s)
          else bindR (if isGlobalScope fn then createGlobalObjectProperty name True
                      else createVariable inFunc name) (\<lambda>res.
               thenR (insertName name res) (okR (res, True))) s))"

text \<open>
  Modelled from the spec: the resume marker of a generator, parameterized with the
  stack slot that records a return request and the block to branch into on resume.
\<close>

definition genResumeGenerator :: "Value \<Rightarrow> nat \<Rightarrow> Value irgen" where
  "genResumeGenerator isReturn nextBB =
     bindR (insertInst (ResumeGeneratorInst isReturn nextBB)) (\<lambda>resume.
     thenR (setInsertionBlock nextBB) (okR resume))"

text \<open>
  Modelled from the spec: a call of a HermesInternal helper; the store of a value into
  the target a binding pattern denotes; and the default of a parameter, which yields
  the value itself when the parameter has no initializer.
\<close>

definition genHermesInternalCall :: "string \<Rightarrow> Value \<Rightarrow> Value list \<Rightarrow> Value irgen" where
  "genHermesInternalCall name thisValue args = insertInst (HermesInternalCallInst name thisValue args)"

definition lrefEmitStore :: "Node \<Rightarrow> Value \<Rightarrow> unit irgen" where
  "lrefEmitStore target v = thenR (insertInst (LRefStoreInst target v)) (okR ())"

definition emitOptionalInitialization :: "Value \<Rightarrow> Node option \<Rightarrow> Value irgen" where
  "emitOptionalInitialization v init =
     (case init of None \<Rightarrow> okR v | Some e \<Rightarrow> insertInst (OptionalInitInst v e))"

text \<open>Modelled from the spec: the location of the last character of a range.\<close>

definition convertEndToLocation :: "SMRange \<Rightarrow> SMLoc" where
  "convertEndToLocation rng =
     (if fst rng = snd rng then fst rng else map_option (\<lambda>e. e - 1) (snd rng))"

section \<open>FunctionContext\<close>

definition FunctionContext_ctor :: "nat \<Rightarrow> FunctionInfo option \<Rightarrow> unit irgen" where
  "FunctionContext_ctor fn si =
     modifyR (\<lambda>s. s\<lparr>
       nameTable := [] # nameTable s,
       functionContext :=
         \<lparr>ctxSemInfo = si,
          builderSaveState = (insertionBlock s, location s),
          ctxFunction = fn,
          ctxScope = length (nameTable s),
          labels = (case si of None \<Rightarrow> [] | Some i \<Rightarrow> replicate (semLabels i) UnresolvedLabel),
          capturedThis = None,
          capturedNewTarget = Some LiteralUndefined,
          capturedArguments = None,
          entryTerminator = None,
          anonymousLabelCounter = 0\<rparr> # functionContext s\<rparr>)"

text \<open>
  The destructor restores the previous context; then the members are destroyed: the
  name table scope is popped and the builder's saved state is restored.
\<close>

definition FunctionContext_dtor :: "unit irgen" where
  "FunctionContext_dtor s =
     (case functionContext s of
        [] \<Rightarrow> Inl (NullDereference ''functionContext'')
      | c # old \<Rightarrow>
          Inr ((), s\<lparr>functionContext := old,
                    nameTable := tl (nameTable s),
                    insertionBlock := fst (builderSaveState c),
                    location := snd (builderSaveState c)\<rparr>))"

definition curFunction :: "FunctionContext irgen" where
  "curFunction s =
     (case functionContext s of
        [] \<Rightarrow> Inl (NullDereference ''curFunction'')
      | c # _ \<Rightarrow> Inr (c, s))"

definition updCurFunction :: "(FunctionContext \<Rightarrow> FunctionContext) \<Rightarrow> unit irgen" where
  "updCurFunction g s =
     (case functionContext s of
        [] \<Rightarrow> Inl (NullDereference ''curFunction'')
      | c # old \<Rightarrow> Inr ((), s\<lparr>functionContext := g c # old\<rparr>))"

definition getPreviousContext :: "FunctionContext irgen" where
  "getPreviousContext s =
     (case functionContext s of
        _ # prev # _ \<Rightarrow> Inr (prev, s)
      | _ \<Rightarrow> Inl (NullDereference ''getPreviousContext''))"

fun showNat :: "nat \<Rightarrow> string" where
  "showNat n =
     (if n < 10 then [''0123456789'' ! n]
      else showNat (n div 10) @ [''0123456789'' ! (n mod 10)])"

declare showNat.simps [simp del]

definition genAnonymousLabelName :: "string \<Rightarrow> Identifier irgen" where
  "genAnonymousLabelName hint =
     bindR curFunction (\<lambda>c.
     thenR (updCurFunction (\<lambda>c. c\<lparr>anonymousLabelCounter := Suc (anonymousLabelCounter c)\<rparr>))
       (okR (Some (''?anon_'' @ showNat (anonymousLabelCounter c) @ ''_'' @ hint))))"


section \<open>Capture state, parameters and the epilogue\<close>

definition initCaptureStateInES5Function :: "unit irgen" where
  "initCaptureStateInES5Function =
     bindR curFunction (\<lambda>c.
     case ctxSemInfo c of
       None \<Rightarrow> failR (NullDereference ''getSemInfo'')
     | Some si \<Rightarrow>
         if \<not> containsArrowFunctions si then okR ()
         else
           let scope = ctxFunction c in
           bindR (genAnonymousLabelName ''this'') (\<lambda>thisName.
           bindR (createVariable scope thisName) (\<lambda>thisVar.
           thenR (updCurFunction (\<lambda>c. c\<lparr>capturedThis := Some thisVar\<rparr>))
          (bindR getFunction (\<lambda>f.
           bindR (getThisParameter f) (\<lambda>thisParam.
           thenR (emitStore thisParam thisVar)
          (bindR (genAnonymousLabelName ''new.target'') (\<lambda>ntName.
           bindR (createVariable scope ntName) (\<lambda>ntVar.
           thenR (updCurFunction (\<lambda>c. c\<lparr>capturedNewTarget := Some ntVar\<rparr>))
          (bindR (insertInst GetNewTargetInst) (\<lambda>nt.
           thenR (emitStore nt ntVar)
          (if containsArrowFunctionsUsingArguments si then
             bindR (genAnonymousLabelName ''arguments'') (\<lambda>argsName.
             bindR (createVariable scope argsName) (\<lambda>argsVar.
             thenR (updCurFunction (\<lambda>c. c\<lparr>capturedArguments := Some argsVar\<rparr>))
            (bindR (insertInst CreateArgumentsInst) (\<lambda>args.
             thenR (emitStore args argsVar) (okR ())))))
           else okR ()))))))))))))"

fun declareParamNames :: "nat \<Rightarrow> string list \<Rightarrow> unit irgen" where
  "declareParamNames newFunc [] = okR ()"
| "declareParamNames newFunc (paramName # rest) =
     bindR (createVariable newFunc (Some paramName)) (\<lambda>paramStorage.
     thenR (insertName (Some paramName) paramStorage)
       (declareParamNames newFunc rest))"

text \<open>
  The loop over the declared parameters.  \<open>paramIndex\<close> is an unsigned 32-bit counter
  that starts at \<open>0 - 1\<close> and is incremented at the top of every round.  A rest element
  ends the loop; \<open>emitFormal\<close> is the rest of the round for any other parameter.
\<close>

definition emitFormal :: "nat \<Rightarrow> Node \<Rightarrow> unit irgen" where
  "emitFormal newFunc elem =
     (let (param, init) =
            (case elem of AssignmentPatternNode l r \<Rightarrow> (l, Some r) | _ \<Rightarrow> (elem, None))
      in bindR (case param of IdentifierNode n \<Rightarrow> okR (Some n)
                | _ \<Rightarrow> genAnonymousLabelName ''param'') (\<lambda>formalParamName.
         bindR (createParameter newFunc formalParamName) (\<lambda>formalParam.
         bindR (emitOptionalInitialization formalParam init) (\<lambda>v.
         lrefEmitStore param v))))"

fun emitParamLoop :: "nat \<Rightarrow> Node list \<Rightarrow> 32 word \<Rightarrow> unit irgen" where
  "emitParamLoop newFunc [] paramIndex0 = okR ()"
| "emitParamLoop newFunc (elem # rest) paramIndex0 =
     (let paramIndex = paramIndex0 + 1 in
      case elem of
        RestElementNode argument \<Rightarrow>
          bindR (genHermesInternalCall ''copyRestArgs'' LiteralUndefined
                   [LiteralNumber (unat paramIndex)]) (\<lambda>v.
          lrefEmitStore argument v)
      | _ \<Rightarrow> thenR (emitFormal newFunc elem) (emitParamLoop newFunc rest paramIndex))"

definition emitParameters :: "FunctionLikeNode \<Rightarrow> unit irgen" where
  "emitParameters funcNode =
     bindR curFunction (\<lambda>c.
     let newFunc = ctxFunction c in
     thenR (createParameter newFunc (Some ''this''))
    (thenR (declareParamNames newFunc (paramNames (getSemInfo funcNode)))
       (emitParamLoop newFunc (getParams funcNode) (0 - 1))))"

subsection \<open>Users and successors of the epilogue's block merge\<close>

definition allInsts :: "IRGenState \<Rightarrow> (nat \<times> Instruction) list" where
  "allInsts s = concat (map bbInsts (blocks s))"

fun successors :: "Instruction \<Rightarrow> nat list" where
  "successors (BranchInst b) = [b]"
| "successors (ResumeGeneratorInst v b) = [b]"
| "successors _ = []"

definition getInst :: "nat \<Rightarrow> Instruction irgen" where
  "getInst t s =
     (case map_of (allInsts s) t of
        None \<Rightarrow> Inl (NullDereference ''instruction'')
      | Some i \<Rightarrow> Inr (i, s))"

definition instBlock :: "nat \<Rightarrow> IRGenState \<Rightarrow> nat option" where
  "instBlock t s = find (\<lambda>b. t \<in> fst ` set (bbInsts (blocks s ! b))) [0..<length (blocks s)]"

definition getNumUsers :: "nat \<Rightarrow> nat irgen" where
  "getNumUsers b s =
     Inr (length (filter (\<lambda>x. x = b) (concat (map (\<lambda>i. successors (snd i)) (allInsts s)))), s)"

definition hasUser :: "nat \<Rightarrow> nat \<Rightarrow> bool irgen" where
  "hasUser b t s =
     Inr ((case map_of (allInsts s) t of None \<Rightarrow> False | Some i \<Rightarrow> b \<in> set (successors i)), s)"

definition moveFirstBefore :: "nat \<Rightarrow> nat \<Rightarrow> unit irgen" where
  "moveFirstBefore nb t s =
     (case bbInsts (blocks s ! nb) of
        [] \<Rightarrow> Inl (NullDereference ''begin'')
      | i # rest \<Rightarrow>
          let s1 = updBlock nb (\<lambda>bb. bb\<lparr>bbInsts := rest\<rparr>) s
          in (case instBlock t s1 of
                None \<Rightarrow> Inl (NullDereference ''moveBefore'')
              | Some tb \<Rightarrow>
                  Inr ((), updBlock tb (\<lambda>bb. bb\<lparr>bbInsts :=
                             (takeWhile (\<lambda>x. fst x \<noteq> t) (bbInsts bb) @ [i] @
                              dropWhile (\<lambda>x. fst x \<noteq> t) (bbInsts bb))\<rparr>) s1)))"

text \<open>
  The loop \<open>while (nextBlock->begin() != nextBlock->end())\<close>, with fuel: it needs one
  round for each instruction of the block, unless the instructions are moved into
  the very block they are taken from, where it would not end.
\<close>

fun moveAllBefore :: "nat \<Rightarrow> nat \<Rightarrow> nat \<Rightarrow> unit irgen" where
  "moveAllBefore 0 nb t s =
     (if bbInsts (blocks s ! nb) = [] then Inr ((), s) else Inl LoopDoesNotTerminate)"
| "moveAllBefore (Suc k) nb t s =
     (if bbInsts (blocks s ! nb) = [] then Inr ((), s)
      else thenR (moveFirstBefore nb t) (moveAllBefore k nb t) s)"

definition eraseInst :: "nat \<Rightarrow> unit irgen" where
  "eraseInst t s =
     (case instBlock t s of
        None \<Rightarrow> Inl (NullDereference ''eraseFromParent'')
      | Some tb \<Rightarrow>
          Inr ((), updBlock tb (\<lambda>bb. bb\<lparr>bbInsts := filter (\<lambda>x. fst x \<noteq> t) (bbInsts bb)\<rparr>) s))"

definition eraseBlock :: "nat \<Rightarrow> unit irgen" where
  "eraseBlock b s =
     Inr ((), updFunction (bbParent (blocks s ! b))
                (\<lambda>fn. fn\<lparr>basicBlocks := removeAll b (basicBlocks fn)\<rparr>) s)"

definition mergeEntryAndNextBlock :: "nat \<Rightarrow> nat \<Rightarrow> unit irgen" where
  "mergeEntryAndNextBlock nextBlock t =
     bindR (\<lambda>s. Inr (length (bbInsts (blocks s ! nextBlock)), s)) (\<lambda>fuel.
     thenR (moveAllBefore fuel nextBlock t)
    (thenR (eraseInst t)
    (thenR (updCurFunction (\<lambda>c. c\<lparr>entryTerminator := None\<rparr>))
       (eraseBlock nextBlock))))"

definition emitFunctionEpilogue :: "Value option \<Rightarrow> unit irgen" where
  "emitFunctionEpilogue returnValue =
     thenR (case returnValue of
              None \<Rightarrow> okR ()
            | Some v \<Rightarrow>
                bindR getFunction (\<lambda>f.
                bindR (getFunctionRec f) (\<lambda>fn.
                thenR (setLocation (convertEndToLocation (fnSourceRange fn)))
               (thenR (insertInst (ReturnInst v)) (okR ())))))
    (bindR curFunction (\<lambda>c.
     bindR (case entryTerminator c of
              None \<Rightarrow> failR (NullDereference ''entryTerminator'')
            | Some t \<Rightarrow> okR t) (\<lambda>t.
     bindR (getInst t) (\<lambda>ti.
     let nextBlock = (if length (successors ti) = 1 then Some (successors ti ! 0) else None) in
     case nextBlock of
       None \<Rightarrow> failR (NullDereference ''nextBlock'')
     | Some nb \<Rightarrow>
         thenR (bindR (getNumUsers nb) (\<lambda>n.
                bindR (hasUser nb t) (\<lambda>h.
                if n = 1 \<and> h then mergeEntryAndNextBlock nb t else okR ())))
           (modifyR (updFunction (ctxFunction c) (\<lambda>fn. fn\<lparr>statementCount := None\<rparr>)))))))"

section \<open>Stub functions\<close>

text \<open>A builder of its own, \<open>IRBuilder builder{M}\<close>, leaves the session's builder as it was.\<close>

definition withLocalBuilder :: "'a irgen \<Rightarrow> 'a irgen" where
  "withLocalBuilder m s =
     (case m (s\<lparr>insertionBlock := None, location := None\<rparr>) of
        Inl e \<Rightarrow> Inl e
      | Inr (x, s') \<Rightarrow> Inr (x, s'\<lparr>insertionBlock := insertionBlock s, location := location s\<rparr>))"

definition genDummyFunction :: "nat \<Rightarrow> unit irgen" where
  "genDummyFunction dummy =
     withLocalBuilder
       (thenR (createParameter dummy (Some ''this''))
       (bindR (createBasicBlock dummy) (\<lambda>firstBlock.
        thenR (setInsertionBlock firstBlock)
       (thenR (insertInst UnreachableInst)
       (thenR (insertInst (ReturnInst LiteralUndefined)) (okR ()))))))"

definition genSyntaxErrorFunction :: "Identifier \<Rightarrow> SMRange \<Rightarrow> string \<Rightarrow> nat irgen" where
  "genSyntaxErrorFunction origName sourceRange error =
     withLocalBuilder
       (bindR (createFunction origName ES5Function True sourceRange False) (\<lambda>newFunc.
        thenR (createParameter newFunc (Some ''this''))
       (bindR (createBasicBlock newFunc) (\<lambda>firstBlock.
        thenR (setInsertionBlock firstBlock)
       (bindR (createGlobalObjectProperty (Some ''SyntaxError'') False) (\<lambda>prop.
        bindR (emitLoad prop) (\<lambda>callee.
        bindR (insertInst (CallInst callee LiteralUndefined [LiteralString error])) (\<lambda>call.
        thenR (insertInst (ThrowInst call)) (okR newFunc)))))))))"


section \<open>Lowering of functions\<close>

definition getNameFieldFromID :: "string option \<Rightarrow> Identifier irgen" where
  "getNameFieldFromID idNode =
     (case idNode of
        None \<Rightarrow> failR (AssertionFailure ''cast<IdentifierNode>'')
      | Some n \<Rightarrow> okR (Some n))"

definition instId :: "Value \<Rightarrow> nat option" where
  "instId v = (case v of InstructionV i \<Rightarrow> Some i | _ \<Rightarrow> None)"

text \<open>The parameters of a lazy stub: every declared parameter is cast to an identifier.\<close>

fun lazyParams :: "nat \<Rightarrow> Node list \<Rightarrow> unit irgen" where
  "lazyParams newFunction [] = okR ()"
| "lazyParams newFunction (param # rest) =
     (case param of
        IdentifierNode paramName \<Rightarrow>
          thenR (createParameter newFunction (Some paramName)) (lazyParams newFunction rest)
      | _ \<Rightarrow> failR (AssertionFailure ''cast<IdentifierNode>''))"

text \<open>The two declaration loops of the prologue.\<close>

fun hoistVarDecls :: "nat \<Rightarrow> string list \<Rightarrow> unit irgen" where
  "hoistVarDecls newFunc [] = okR ()"
| "hoistVarDecls newFunc (name # rest) =
     bindR (declareVariableOrGlobalProperty newFunc (Some name)) (\<lambda>res.
     thenR (case fst res of
              VariableV var \<Rightarrow>
                if snd res then thenR (insertInst (StoreFrameInst LiteralUndefined var)) (okR ())
                else okR ()
            | _ \<Rightarrow> okR ())
       (hoistVarDecls newFunc rest))"

fun declareClosures :: "nat \<Rightarrow> FunctionLikeNode list \<Rightarrow> unit irgen" where
  "declareClosures newFunc [] = okR ()"
| "declareClosures newFunc (fd # rest) =
     bindR (getNameFieldFromID (node_id (attrs fd))) (\<lambda>name.
     thenR (declareVariableOrGlobalProperty newFunc name)
       (declareClosures newFunc rest))"

text \<open>
  The functions of the lowering that call each other through the syntax tree.
  \<open>genStatement\<close> is modelled from the spec: body lowering is external and recurses
  back into the driver for nested functions; any other statement stands for its
  instructions as one opaque instruction.  Every context is created with the
  semantic info of the node it lowers, so the prologue reads the closures from the
  node.
\<close>

function
  genFunctionDeclaration :: "FunctionLikeNode \<Rightarrow> unit irgen" and
  genFunctionExpression :: "FunctionLikeNode \<Rightarrow> Identifier \<Rightarrow> Value irgen" and
  genArrowFunctionExpression :: "FunctionLikeNode \<Rightarrow> Identifier \<Rightarrow> Value irgen" and
  genES5Function :: "Identifier \<Rightarrow> Value option \<Rightarrow> FunctionLikeNode \<Rightarrow> bool \<Rightarrow> nat irgen" and
  genGeneratorFunction :: "Identifier \<Rightarrow> Value option \<Rightarrow> FunctionLikeNode \<Rightarrow> nat irgen" and
  emitFunctionPrologue :: "FunctionLikeNode \<Rightarrow> nat \<Rightarrow> unit irgen" and
  genClosures :: "FunctionLikeNode list \<Rightarrow> unit irgen" and
  genStatement :: "Statement \<Rightarrow> unit irgen" and
  genBody :: "Statement list \<Rightarrow> unit irgen"
where
  "genFunctionDeclaration func =
     bindR (getNameFieldFromID (node_id (attrs func))) (\<lambda>functionName.
     bindR (lookupName functionName) (\<lambda>found.
     bindR (case found of
              None \<Rightarrow> failR (AssertionFailure
                         ''function declaration variable should have been hoisted'')
            | Some st \<Rightarrow> okR st) (\<lambda>funcStorage.
     bindR (if generator (attrs func)
            then genGeneratorFunction functionName None func
            else genES5Function functionName None func False) (\<lambda>newFunc.
     bindR (insertInst (CreateFunctionInst newFunc)) (\<lambda>newClosure.
     thenR (emitStore newClosure funcStorage) (okR ()))))))"
| "genFunctionExpression FE nameHint =
     thenR pushScope
    (bindR (case node_id (attrs FE) of
              None \<Rightarrow> okR (None, nameHint)
            | Some n \<Rightarrow>
                bindR (genAnonymousLabelName ''closure'') (\<lambda>closureName.
                bindR curFunction (\<lambda>c.
                bindR (createVariable (ctxFunction c) closureName) (\<lambda>tempClosureVar.
                thenR (insertIntoScope (ctxScope c) closureName tempClosureVar)
               (thenR (insertName (Some n) tempClosureVar)
                  (okR (Some tempClosureVar, Some n))))))) (\<lambda>(tempClosureVar, originalNameIden).
     bindR (if generator (attrs FE)
            then genGeneratorFunction originalNameIden tempClosureVar FE
            else genES5Function originalNameIden tempClosureVar FE False) (\<lambda>newFunc.
     bindR (insertInst (CreateFunctionInst newFunc)) (\<lambda>closure.
     thenR (case tempClosureVar of
              None \<Rightarrow> okR ()
            | Some v \<Rightarrow> thenR (emitStore closure v) (okR ()))
    (thenR popScope (okR closure))))))"
| "genArrowFunctionExpression AF nameHint =
     bindR (createFunction nameHint ES6Arrow (strictness (attrs AF))
              (nodeSourceRange (attrs AF)) False) (\<lambda>newFunc.
     thenR (FunctionContext_ctor newFunc (Some (getSemInfo AF)))
    (bindR (createBasicBlock newFunc) (\<lambda>entry.
     thenR (emitFunctionPrologue AF entry)
    (bindR getPreviousContext (\<lambda>prev.
     thenR (updCurFunction (\<lambda>c. c\<lparr>capturedThis := capturedThis prev\<rparr>))
    (thenR (updCurFunction (\<lambda>c. c\<lparr>capturedNewTarget := capturedNewTarget prev\<rparr>))
    (thenR (updCurFunction (\<lambda>c. c\<lparr>capturedArguments := capturedArguments prev\<rparr>))
    (thenR (genBody (body AF))
    (thenR (emitFunctionEpilogue (Some LiteralUndefined))
    (thenR FunctionContext_dtor
       (insertInst (CreateFunctionInst newFunc))))))))))))"
| "genES5Function origName alias functionNode isGeneratorInnerFunction =
     bindR (if isGeneratorInnerFunction
            then createGeneratorInnerFunction origName ES5Function
                   (strictness (attrs functionNode)) (bodySourceRange (attrs functionNode))
            else createFunction origName ES5Function
                   (strictness (attrs functionNode)) (bodySourceRange (attrs functionNode))
                   False) (\<lambda>newFunction.
     thenR (modifyR (updFunction newFunction (\<lambda>fn. fn\<lparr>lazyClosureAlias := alias\<rparr>)))
    (if isLazyFunctionBody (attrs functionNode) then
       bindR saveCurrentScope (\<lambda>sc.
       thenR (modifyR (updFunction newFunction (\<lambda>fn. fn\<lparr>lazyScope := Some sc\<rparr>)))
      (thenR (modifyR (updFunction newFunction (\<lambda>fn. fn\<lparr>lazySource :=
                \<lparr>lsBufferId = bufferId (attrs functionNode),
                 lsNodeKind = Some (nodeKind (attrs functionNode)),
                 lsFunctionRange = nodeSourceRange (attrs functionNode)\<rparr>\<rparr>)))
      (thenR (createParameter newFunction (Some ''this''))
      (thenR (lazyParams newFunction (getParams functionNode))
         (okR newFunction)))))
     else
       thenR (FunctionContext_ctor newFunction (Some (getSemInfo functionNode)))
      (thenR (if isGeneratorInnerFunction then
                bindR (createBasicBlock newFunction) (\<lambda>initGenBB.
                thenR (setInsertionBlock initGenBB)
               (thenR (insertInst StartGeneratorInst)
               (bindR (genAnonymousLabelName ''isReturn'') (\<lambda>isReturnName.
                bindR (insertInst (AllocStackInst isReturnName)) (\<lambda>resumeIsReturn.
                bindR (createBasicBlock newFunction) (\<lambda>entryPoint.
                thenR (genResumeGenerator resumeIsReturn entryPoint)
                  (emitFunctionPrologue functionNode entryPoint)))))))
              else
                bindR (createBasicBlock newFunction) (\<lambda>entry.
                emitFunctionPrologue functionNode entry))
      (thenR initCaptureStateInES5Function
      (thenR (genBody (body functionNode))
      (thenR (emitFunctionEpilogue (Some LiteralUndefined))
      (bindR curFunction (\<lambda>c.
       thenR FunctionContext_dtor (okR (ctxFunction c))))))))))"
| "genGeneratorFunction origName alias functionNode =
     bindR (createGeneratorFunction origName ES5Function (strictness (attrs functionNode))) (\<lambda>outerFn.
     bindR (genAnonymousLabelName (case origName of Some n \<Rightarrow> n | None \<Rightarrow> [])) (\<lambda>innerName.
     bindR (genES5Function innerName alias functionNode True) (\<lambda>innerFn.
     thenR (FunctionContext_ctor outerFn (Some (getSemInfo functionNode)))
    (bindR (createBasicBlock outerFn) (\<lambda>entry.
     thenR (emitFunctionPrologue functionNode entry)
    (thenR initCaptureStateInES5Function
    (bindR (insertInst (CreateGeneratorInst innerFn)) (\<lambda>gen.
     thenR (emitFunctionEpilogue (Some gen))
    (thenR FunctionContext_dtor (okR outerFn))))))))))"
| "emitFunctionPrologue funcNode entry =
     bindR curFunction (\<lambda>c.
     bindR (case ctxSemInfo c of
              None \<Rightarrow> failR (NullDereference ''getSemInfo'')
            | Some si \<Rightarrow> okR si) (\<lambda>si.
     bindR (getFunctionRec (ctxFunction c)) (\<lambda>fn.
     thenR (setLocation (fst (fnSourceRange fn)))
    (thenR (setInsertionBlock entry)
    (thenR (hoistVarDecls (ctxFunction c) (varDecls si))
    (thenR (declareClosures (ctxFunction c) (closures funcNode))
    (thenR (emitParameters funcNode)
    (thenR (genClosures (closures funcNode))
    (bindR (createBasicBlock (ctxFunction c)) (\<lambda>nextBlock.
     bindR (insertInst (BranchInst nextBlock)) (\<lambda>t.
     thenR (updCurFunction (\<lambda>c. c\<lparr>entryTerminator := instId t\<rparr>))
       (setInsertionBlock nextBlock))))))))))))"
| "genClosures [] = okR ()"
| "genClosures (funcDecl # rest) = thenR (genFunctionDeclaration funcDecl) (genClosures rest)"
| "genStatement (FunctionExpressionStmt FE nameHint) =
     thenR (genFunctionExpression FE nameHint) (okR ())"
| "genStatement (ArrowFunctionExpressionStmt AF nameHint) =
     thenR (genArrowFunctionExpression AF nameHint) (okR ())"
| "genStatement (OtherStmt n) = thenR (insertInst (OtherInst n)) (okR ())"
| "genBody [] = okR ()"
| "genBody (st # rest) = thenR (genStatement st) (genBody rest)"
  by pat_completeness auto


lemma size_closures_less: "size_list size (closures n) < size n"
  by (cases n) simp

lemma size_body_less: "size_list size (body n) < size n"
  by (cases n) simp

termination genFunctionDeclaration
  apply (relation "inv_image (less_than <*lex*> less_than)
     (\<lambda>x. case x of
        Inl (Inl (Inl func)) \<Rightarrow> (size func, 4::nat)
      | Inl (Inl (Inr (FE, h))) \<Rightarrow> (size FE, 4)
      | Inl (Inr (Inl (AF, h))) \<Rightarrow> (size AF, 2)
      | Inl (Inr (Inr (a, b, n, g))) \<Rightarrow> (size n, 2)
      | Inr (Inl (Inl (a, b, n))) \<Rightarrow> (size n, 3)
      | Inr (Inl (Inr (n, e))) \<Rightarrow> (size n, 1)
      | Inr (Inr (Inl cs)) \<Rightarrow> (size_list size cs, 0)
      | Inr (Inr (Inr (Inl st))) \<Rightarrow> (size st, 0)
      | Inr (Inr (Inr (Inr sts))) \<Rightarrow> (size_list size sts, 0))")
  apply (auto simp: size_closures_less size_body_less)
  done

declare genFunctionDeclaration.simps [simp del] genFunctionExpression.simps [simp del]
  genArrowFunctionExpression.simps [simp del] genES5Function.simps [simp del]
  genGeneratorFunction.simps [simp del] emitFunctionPrologue.simps [simp del]

section \<open>A session to run the lowering in\<close>

text \<open>
  The state in which the lowering of a program starts: the top-level function, in
  the global scope, with its entry block, its context and its name table scope.
\<close>

definition topLevelContext :: FunctionContext where
  "topLevelContext =
     \<lparr>ctxSemInfo = Some \<lparr>paramNames = [], varDecls = [], containsArrowFunctions = False,
                         containsArrowFunctionsUsingArguments = False, semLabels = 0\<rparr>,
      builderSaveState = (None, None),
      ctxFunction = 0,
      ctxScope = 0,
      labels = [],
      capturedThis = None,
      capturedNewTarget = Some LiteralUndefined,
      capturedArguments = None,
      entryTerminator = None,
      anonymousLabelCounter = 0\<rparr>"

definition topLevelState :: IRGenState where
  "topLevelState =
     \<lparr>functionList =
        [\<lparr>originalName = Some ''global'', definitionKind = ES5Function, valueKind = FunctionKind,
          strictMode = False, fnSourceRange = (Some 0, Some 100), isGlobalScope = True,
          parameters = [Some ''this''], basicBlocks = [0], lazyClosureAlias = None,
          lazyScope = None,
          lazySource = \<lparr>lsBufferId = 0, lsNodeKind = None, lsFunctionRange = (None, None)\<rparr>,
          statementCount = Some 0\<rparr>],
      blocks = [\<lparr>bbParent = 0, bbInsts = []\<rparr>],
      variables = [],
      instCount = 0,
      insertionBlock = Some 0,
      location = Some 0,
      nameTable = [[]],
      functionContext = [topLevelContext]\<rparr>"

definition plainInfo :: FunctionInfo where
  "plainInfo = \<lparr>paramNames = [], varDecls = [], containsArrowFunctions = False,
                 containsArrowFunctionsUsingArguments = False, semLabels = 0\<rparr>"

definition plainAttrs :: FunctionAttrs where
  "plainAttrs = \<lparr>nodeKind = FunctionDeclarationKind, node_id = Some ''f'', params = [],
                  generator = False, strictness = False, nodeSourceRange = (Some 10, Some 40),
                  bodySourceRange = (Some 20, Some 40), isLazyFunctionBody = False,
                  bufferId = 1, semInfo = plainInfo\<rparr>"


text \<open>The name that \<open>genAnonymousLabelName\<close> makes when the counter stands at \<open>k\<close>.\<close>

definition anonName :: "nat \<Rightarrow> string \<Rightarrow> Identifier" where
  "anonName k hint = Some (''?anon_'' @ showNat k @ ''_'' @ hint)"

text \<open>
  The session after a function \<open>f\<close> was created under the top level, its context
  pushed, its first block made the insertion block and its \<open>this\<close> parameter created.
\<close>

definition captureSession :: "bool \<Rightarrow> bool \<Rightarrow> IRGenState" where
  "captureSession ca ua =
     (case bindR (createFunction (Some ''f'') ES5Function False (Some 20, Some 40) False) (\<lambda>f.
           thenR (FunctionContext_ctor f (Some (plainInfo\<lparr>containsArrowFunctions := ca,
                    containsArrowFunctionsUsingArguments := ua\<rparr>)))
          (bindR (createBasicBlock f) (\<lambda>b.
           thenR (setInsertionBlock b) (createParameter f (Some ''this''))))) topLevelState of
        Inr (x, s) \<Rightarrow> s
      | Inl e \<Rightarrow> topLevelState)"

fun isIdentifierNode :: "Node \<Rightarrow> bool" where
  "isIdentifierNode (IdentifierNode n) = True"
| "isIdentifierNode _ = False"

fun identifierName :: "Node \<Rightarrow> Identifier" where
  "identifierName (IdentifierNode n) = Some n"
| "identifierName _ = None"



fun isRestElementNode :: "Node \<Rightarrow> bool" where
  "isRestElementNode (RestElementNode a) = True"
| "isRestElementNode _ = False"

text \<open>The state a run ends in, if it succeeds.\<close>

definition finalState :: "Error + ('a \<times> IRGenState) \<Rightarrow> IRGenState option" where
  "finalState r = (case r of Inl e \<Rightarrow> None | Inr (x, s) \<Rightarrow> Some s)"

text \<open>
  The session after a function \<open>f\<close> was created under the top level, its context
  pushed and its first block made the insertion block; and the function node of
  \<open>function f(a, ...r) {}\<close>.
\<close>

definition paramSession :: IRGenState where
  "paramSession =
     (case bindR (createFunction (Some ''f'') ES5Function False (Some 20, Some 40) False) (\<lambda>f.
           thenR (FunctionContext_ctor f (Some plainInfo))
          (bindR (createBasicBlock f) (\<lambda>b. setInsertionBlock b))) topLevelState of
        Inr (x, s) \<Rightarrow> s
      | Inl e \<Rightarrow> topLevelState)"

definition restNode :: FunctionLikeNode where
  "restNode = FunctionLikeNode
     (plainAttrs\<lparr>params := [IdentifierNode ''a'', RestElementNode (IdentifierNode ''r'')],
        semInfo := plainInfo\<lparr>paramNames := [''a'', ''r'']\<rparr>\<rparr>) [] []"

text \<open>
  A context without the two fields that the lowering of nested functions and the
  prologue change in the current context: the label counter and the entry terminator.
\<close>

definition ctxKeep :: "FunctionContext \<Rightarrow> FunctionContext" where
  "ctxKeep c = c\<lparr>anonymousLabelCounter := 0, entryTerminator := None\<rparr>"

text \<open>\<open>rel m R\<close>: whenever the run \<open>m\<close> succeeds, its first and last state are related by \<open>R\<close>.\<close>

definition rel :: "'a irgen \<Rightarrow> (IRGenState \<Rightarrow> IRGenState \<Rightarrow> bool) \<Rightarrow> bool" where
  "rel m R \<longleftrightarrow> (\<forall>s x s'. m s = Inr (x, s') \<longrightarrow> R s s')"

definition sameStack :: "IRGenState \<Rightarrow> IRGenState \<Rightarrow> bool" where
  "sameStack s s' \<longleftrightarrow>
     tl (functionContext s') = tl (functionContext s) \<and>
     map ctxKeep (functionContext s') = map ctxKeep (functionContext s)"

definition sameTail :: "IRGenState \<Rightarrow> IRGenState \<Rightarrow> bool" where
  "sameTail s s' \<longleftrightarrow> tl (functionContext s') = tl (functionContext s)"

definition popped :: "IRGenState \<Rightarrow> IRGenState \<Rightarrow> bool" where
  "popped s s' \<longleftrightarrow>
     tl (functionContext s') = tl (tl (functionContext s)) \<and>
     map ctxKeep (functionContext s') = map ctxKeep (tl (functionContext s))"

text \<open>The three capture references of a context.\<close>

definition capturesOf :: "FunctionContext \<Rightarrow> Value option \<times> Value option \<times> Value option" where
  "capturesOf c = (capturedThis c, capturedNewTarget c, capturedArguments c)"

text \<open>
  \<open>genArrowFunctionExpression\<close> up to the lowering of the body: the function is
  created, its context pushed, the prologue emitted and the capture references
  propagated.  The result is the new function.
\<close>

definition arrowFunctionEntry :: "FunctionLikeNode \<Rightarrow> Identifier \<Rightarrow> nat irgen" where
  "arrowFunctionEntry AF nameHint =
     bindR (createFunction nameHint ES6Arrow (strictness (attrs AF))
              (nodeSourceRange (attrs AF)) False) (\<lambda>newFunc.
     thenR (FunctionContext_ctor newFunc (Some (getSemInfo AF)))
    (bindR (createBasicBlock newFunc) (\<lambda>entry.
     thenR (emitFunctionPrologue AF entry)
    (bindR getPreviousContext (\<lambda>prev.
     thenR (updCurFunction (\<lambda>c. c\<lparr>capturedThis := capturedThis prev\<rparr>))
    (thenR (updCurFunction (\<lambda>c. c\<lparr>capturedNewTarget := capturedNewTarget prev\<rparr>))
    (thenR (updCurFunction (\<lambda>c. c\<lparr>capturedArguments := capturedArguments prev\<rparr>))
       (okR newFunc))))))))"

text \<open>An arrow function without parameters, \<open>() => {...}\<close>.\<close>

definition plainArrow :: FunctionLikeNode where
  "plainArrow = FunctionLikeNode
     (plainAttrs\<lparr>nodeKind := ArrowFunctionExpressionKind, node_id := None\<rparr>) [] [OtherStmt 7]"

text \<open>The session of a function that has materialized all three captures.\<close>

definition materializedSession :: IRGenState where
  "materializedSession =
     (case initCaptureStateInES5Function (captureSession True True) of
        Inr (x, s) \<Rightarrow> s
      | Inl e \<Rightarrow> topLevelState)"


section \<open>Well-formed instruction numbering\<close>

text \<open>
  Instructions are referred to by their numbers: the entry terminator of a context is
  the number of the branch that the prologue appends to the entry block.  In a state
  with \<open>wfInsts\<close> every instruction is numbered below the counter and branches to a block
  that exists; \<open>fresh z s\<close> says that the instructions of \<open>s\<close> are instructions of \<open>z\<close> or were
  numbered after \<open>z\<close>; \<open>step\<close> relates the first and the last state of a run that keeps
  the entry terminators of all contexts.
\<close>

definition wfInsts :: "IRGenState \<Rightarrow> bool" where
  "wfInsts s \<longleftrightarrow>
     (\<forall>ix \<in> set (allInsts s).
        fst ix < instCount s \<and> (\<forall>b \<in> set (successors (snd ix)). b < length (blocks s)))"

definition fresh :: "IRGenState \<Rightarrow> IRGenState \<Rightarrow> bool" where
  "fresh z s \<longleftrightarrow>
     instCount z \<le> instCount s \<and>
     (\<forall>ix \<in> set (allInsts s). ix \<in> set (allInsts z) \<or> instCount z \<le> fst ix)"

definition entryTerminators :: "IRGenState \<Rightarrow> nat option list" where
  "entryTerminators s = map entryTerminator (functionContext s)"

definition step :: "IRGenState \<Rightarrow> IRGenState \<Rightarrow> bool" where
  "step s s' \<longleftrightarrow> wfInsts s' \<and> fresh s s' \<and> entryTerminators s' = entryTerminators s"


section \<open>The frame of a lowering\<close>

text \<open>
  In a well-formed state the numbers of the instructions are unique as well: no number
  occurs twice in a block or in two blocks, the insertion block exists, and a generator
  is created from a function that exists.

  \<open>frame L LF N z s\<close> says what a run from \<open>z\<close> to \<open>s\<close> has left alone: the blocks of \<open>z\<close> keep
  their function, and all but those in \<open>L\<close> their instructions; the functions of \<open>z\<close> keep
  their kind, and all but those in \<open>LF\<close> their record; the contexts below the current
  one are the same, and every context keeps its function, scope, saved builder state
  and semantic info; and a generator is created only from a function numbered from \<open>N\<close>.
  \<open>ext LF s s'\<close> is the frame of a step inside one function: only the insertion block
  grows, and the insertion block and the entry terminators stay.  \<open>valid P m Q\<close> is a
  Hoare triple for the runs of \<open>m\<close> that succeed, and \<open>keeps LF m\<close> says that they extend
  the state within the frame.
\<close>

definition blockIds :: "IRGenState \<Rightarrow> nat \<Rightarrow> nat set" where
  "blockIds s b = fst ` set (bbInsts (blocks s ! b))"

definition wfState :: "IRGenState \<Rightarrow> bool" where
  "wfState s \<longleftrightarrow>
     wfInsts s \<and>
     (\<forall>b<length (blocks s). distinct (map fst (bbInsts (blocks s ! b)))) \<and>
     (\<forall>b<length (blocks s). \<forall>b'<length (blocks s). b \<noteq> b' \<longrightarrow> blockIds s b \<inter> blockIds s b' = {}) \<and>
     (\<forall>b. insertionBlock s = Some b \<longrightarrow> b < length (blocks s)) \<and>
     (\<forall>i g. (i, CreateGeneratorInst g) \<in> set (allInsts s) \<longrightarrow> g < length (functionList s))"

definition ctxCore :: "FunctionContext \<Rightarrow> nat \<times> nat \<times> (nat option \<times> SMLoc) \<times> FunctionInfo option" where
  "ctxCore c = (ctxFunction c, ctxScope c, builderSaveState c, ctxSemInfo c)"

definition frame :: "nat set \<Rightarrow> nat set \<Rightarrow> nat \<Rightarrow> IRGenState \<Rightarrow> IRGenState \<Rightarrow> bool" where
  "frame L LF N z s \<longleftrightarrow>
     wfState s \<and>
     (\<forall>i g. (i, CreateGeneratorInst g) \<in> set (allInsts s) \<longrightarrow>
        (i, CreateGeneratorInst g) \<in> set (allInsts z) \<or> N \<le> g) \<and>
     length (blocks z) \<le> length (blocks s) \<and>
     (\<forall>b<length (blocks z). bbParent (blocks s ! b) = bbParent (blocks z ! b)) \<and>
     (\<forall>b<length (blocks z). b \<notin> L \<longrightarrow> blocks s ! b = blocks z ! b) \<and>
     length (functionList z) \<le> length (functionList s) \<and>
     (\<forall>g<length (functionList z). valueKind (functionList s ! g) = valueKind (functionList z ! g)) \<and>
     (\<forall>g<length (functionList z). g \<notin> LF \<longrightarrow> functionList s ! g = functionList z ! g) \<and>
     tl (functionContext s) = tl (functionContext z) \<and>
     map ctxCore (functionContext s) = map ctxCore (functionContext z)"

definition ext :: "nat set \<Rightarrow> IRGenState \<Rightarrow> IRGenState \<Rightarrow> bool" where
  "ext LF s s' \<longleftrightarrow>
     frame (set_option (insertionBlock s)) LF (length (functionList s)) s s' \<and>
     insertionBlock s' = insertionBlock s \<and>
     entryTerminators s' = entryTerminators s"

definition valid :: "(IRGenState \<Rightarrow> bool) \<Rightarrow> 'a irgen \<Rightarrow> ('a \<Rightarrow> IRGenState \<Rightarrow> bool) \<Rightarrow> bool" where
  "valid P m Q \<longleftrightarrow> (\<forall>s x s'. P s \<longrightarrow> m s = Inr (x, s') \<longrightarrow> Q x s')"

definition keeps :: "nat set \<Rightarrow> 'a irgen \<Rightarrow> bool" where
  "keeps LF m \<longleftrightarrow> (\<forall>s x s'. wfState s \<longrightarrow> m s = Inr (x, s') \<longrightarrow> ext LF s s')"

text \<open>
  The phases of the lowering of one function \<open>F\<close>, seen from the state \<open>z\<close> in which its
  context was pushed: \<open>phaseD\<close> between the constructor and the destructor, \<open>phaseE\<close> once
  a block \<open>e\<close> of \<open>F\<close> exists that the lowering may write to, \<open>phaseP\<close> while \<open>e\<close> is the
  insertion block, and \<open>phaseK\<close> from the end of the prologue to the epilogue, when
  \<open>atTerminator\<close> holds: the context of \<open>F\<close> records the number \<open>t\<close>, the entry block \<open>eb\<close>
  ends in the instruction numbered \<open>t\<close>, which is a branch to the block \<open>nb\<close> of \<open>F\<close>, and
  \<open>nb\<close> is the insertion block.
\<close>

definition curIs :: "nat \<Rightarrow> IRGenState \<Rightarrow> bool" where
  "curIs F s \<longleftrightarrow> (\<exists>c cs. functionContext s = c # cs \<and> ctxFunction c = F)"

definition phaseD :: "IRGenState \<Rightarrow> nat set \<Rightarrow> nat \<Rightarrow> nat \<Rightarrow> IRGenState \<Rightarrow> bool" where
  "phaseD z L F N s \<longleftrightarrow> frame L {F} N z s \<and> curIs F s \<and> N \<le> length (functionList z)"

definition phaseE :: "IRGenState \<Rightarrow> nat set \<Rightarrow> nat \<Rightarrow> nat \<Rightarrow> nat \<Rightarrow> IRGenState \<Rightarrow> bool" where
  "phaseE z L F N e s \<longleftrightarrow>
     phaseD z L F N s \<and> e < length (blocks s) \<and> (e \<in> L \<or> length (blocks z) \<le> e) \<and>
     bbParent (blocks s ! e) = F"

definition phaseP :: "IRGenState \<Rightarrow> nat set \<Rightarrow> nat \<Rightarrow> nat \<Rightarrow> nat \<Rightarrow> IRGenState \<Rightarrow> bool" where
  "phaseP z L F N e s \<longleftrightarrow> phaseE z L F N e s \<and> insertionBlock s = Some e"

definition atTerminator :: "nat \<Rightarrow> nat \<Rightarrow> nat \<Rightarrow> nat \<Rightarrow> IRGenState \<Rightarrow> bool" where
  "atTerminator F t eb nb s \<longleftrightarrow>
     (\<exists>c cs pre. functionContext s = c # cs \<and> ctxFunction c = F \<and> entryTerminator c = Some t \<and>
        eb < length (blocks s) \<and> nb < length (blocks s) \<and> eb \<noteq> nb \<and>
        bbInsts (blocks s ! eb) = pre @ [(t, BranchInst nb)] \<and>
        insertionBlock s = Some nb \<and>
        bbParent (blocks s ! nb) = F \<and> bbParent (blocks s ! eb) = F)"

definition phaseK :: "IRGenState \<Rightarrow> nat set \<Rightarrow> nat \<Rightarrow> nat \<Rightarrow> nat \<Rightarrow> IRGenState \<Rightarrow> bool" where
  "phaseK z L F N eb s \<longleftrightarrow>
     frame L {F} N z s \<and> N \<le> length (functionList z) \<and> (eb \<in> L \<or> length (blocks z) \<le> eb) \<and>
     (\<exists>t nb. length (blocks z) \<le> nb \<and> atTerminator F t eb nb s)"

text \<open>The terminator \<open>t\<close> is the last instruction of block \<open>eb\<close> and occurs nowhere else.\<close>

definition termAt :: "nat \<Rightarrow> nat \<Rightarrow> nat \<Rightarrow> (nat \<times> Instruction) list \<Rightarrow> IRGenState \<Rightarrow> bool" where
  "termAt t eb nb pre s \<longleftrightarrow>
     eb < length (blocks s) \<and> nb < length (blocks s) \<and> eb \<noteq> nb \<and>
     bbInsts (blocks s ! eb) = pre @ [(t, BranchInst nb)] \<and>
     t \<notin> fst ` set pre \<and>
     (\<forall>b<length (blocks s). b \<noteq> eb \<longrightarrow> t \<notin> fst ` set (bbInsts (blocks s ! b)))"


definition setInsts :: "nat \<Rightarrow> (nat \<times> Instruction) list \<Rightarrow> BasicBlock list \<Rightarrow> BasicBlock list" where
  "setInsts b is B = B[b := (B ! b)\<lparr>bbInsts := is\<rparr>]"


definition numUsers :: "nat \<Rightarrow> IRGenState \<Rightarrow> nat" where
  "numUsers b s = length (filter (\<lambda>x. x = b) (concat (map (\<lambda>i. successors (snd i)) (allInsts s))))"

text \<open>
  The state after the entry block \<open>eb\<close>, which ends in the terminator, and the next
  block \<open>nb\<close> were merged: the instructions of \<open>nb\<close> have replaced the terminator, and
  \<open>nb\<close> is empty and no longer a block of the function.
\<close>

definition mergedState :: "nat \<Rightarrow> nat \<Rightarrow> nat \<Rightarrow> IRGenState \<Rightarrow> IRGenState" where
  "mergedState F eb nb s =
     updFunction F (\<lambda>fn. fn\<lparr>basicBlocks := removeAll nb (basicBlocks fn)\<rparr>)
       (s\<lparr>blocks := setInsts eb (butlast (bbInsts (blocks s ! eb)) @ bbInsts (blocks s ! nb))
                      (setInsts nb [] (blocks s)),
          functionContext := (hd (functionContext s))\<lparr>entryTerminator := None\<rparr> # tl (functionContext s)\<rparr>)"

text \<open>
  \<open>driver m\<close>: a lowering of a function adds functions and blocks and changes nothing
  that existed, and returns the first function it added.  \<open>exited\<close> is the state after
  the destructor of a context, \<open>phaseKx\<close> the phase of the body for some entry block,
  and \<open>runs m s x s'\<close> a run of \<open>m\<close> from \<open>s\<close> that succeeds with \<open>x\<close> in \<open>s'\<close>.
\<close>

definition driver :: "nat irgen \<Rightarrow> bool" where
  "driver m \<longleftrightarrow>
     (\<forall>s x s'. wfState s \<longrightarrow> m s = Inr (x, s') \<longrightarrow>
        frame {} {} (length (functionList s)) s s' \<and>
        insertionBlock s' = insertionBlock s \<and>
        entryTerminators s' = entryTerminators s \<and>
        x = length (functionList s) \<and> x < length (functionList s'))"

definition exited :: "IRGenState \<Rightarrow> nat set \<Rightarrow> nat \<Rightarrow> nat \<Rightarrow> IRGenState \<Rightarrow> bool" where
  "exited z L F N s1 \<longleftrightarrow> (\<exists>s u. phaseD z L F N s \<and> FunctionContext_dtor s = Inr (u, s1))"

definition phaseKx :: "IRGenState \<Rightarrow> nat set \<Rightarrow> nat \<Rightarrow> nat \<Rightarrow> IRGenState \<Rightarrow> bool" where
  "phaseKx z L F N s \<longleftrightarrow> (\<exists>eb. phaseK z L F N eb s)"

definition runs :: "'a irgen \<Rightarrow> IRGenState \<Rightarrow> 'a \<Rightarrow> IRGenState \<Rightarrow> bool" where
  "runs m s x s' \<longleftrightarrow> m s = Inr (x, s')"

text \<open>
  The failures of the epilogue that come from the entry terminator: no terminator
  recorded, no instruction under its number, no single successor, and the failures of
  the merge that moves the instructions of the next block before it.
\<close>

definition terminatorError :: "Error \<Rightarrow> bool" where
  "terminatorError e \<longleftrightarrow>
     e \<in> set [NullDereference ''entryTerminator'', NullDereference ''instruction'',
              NullDereference ''nextBlock'', NullDereference ''begin'',
              NullDereference ''moveBefore'', NullDereference ''eraseFromParent'',
              LoopDoesNotTerminate]"

text \<open>\<open>quiet m\<close>: the run \<open>m\<close> never fails on the entry terminator; \<open>sound P m\<close>: it does not from a state with \<open>P\<close>.\<close>

definition quiet :: "'a irgen \<Rightarrow> bool" where
  "quiet m \<longleftrightarrow> (\<forall>s e. m s = Inl e \<longrightarrow> \<not> terminatorError e)"

definition sound :: "(IRGenState \<Rightarrow> bool) \<Rightarrow> 'a irgen \<Rightarrow> bool" where
  "sound P m \<longleftrightarrow> (\<forall>s e. P s \<longrightarrow> m s = Inl e \<longrightarrow> \<not> terminatorError e)"

definition fails :: "'a irgen \<Rightarrow> IRGenState \<Rightarrow> Error \<Rightarrow> bool" where
  "fails m s e \<longleftrightarrow> m s = Inl e"

text \<open>\<open>function f() { s; () => {...} }\<close>, a function with an arrow function in its body.\<close>

definition sampleFunction :: FunctionLikeNode where
  "sampleFunction = FunctionLikeNode plainAttrs [] [OtherStmt 1, ArrowFunctionExpressionStmt plainArrow None]"



definition sameBlockLists :: "IRGenState \<Rightarrow> IRGenState \<Rightarrow> bool" where
  "sameBlockLists s s' \<longleftrightarrow> map basicBlocks (functionList s') = map basicBlocks (functionList s)"


definition sameFuns :: "IRGenState \<Rightarrow> IRGenState \<Rightarrow> bool" where
  "sameFuns s s' \<longleftrightarrow> length (functionList s') = length (functionList s)"





section \<open>Properties\<close>

lemmas monad_defs = okR_def failR_def bindR_def thenR_def modifyR_def

subsection \<open>The syntax error stub\<close>

text \<open>
  C8.  For every name, source range and message, and in every state,
  \<open>genSyntaxErrorFunction\<close> succeeds and adds exactly one function and one block to
  the module: the function is strict, has the one parameter \<open>this\<close> and that single
  block, and the block consists of three instructions: the load of the global
  \<open>SyntaxError\<close>, the call of the loaded value with the message as its only argument,
  and the throw of the call's result.  The throw ends the block and has no
  successor, so the function can do nothing but throw.  The session's own builder
  is left as it was.
\<close>

theorem genSyntaxErrorFunction_throws:
  "genSyntaxErrorFunction origName sourceRange msg s =
     Inr (length (functionList s),
          s\<lparr>functionList := functionList s @
               [\<lparr>originalName = origName, definitionKind = ES5Function, valueKind = FunctionKind,
                 strictMode = True, fnSourceRange = sourceRange, isGlobalScope = False,
                 parameters = [Some ''this''], basicBlocks = [length (blocks s)],
                 lazyClosureAlias = None, lazyScope = None,
                 lazySource = \<lparr>lsBufferId = 0, lsNodeKind = None, lsFunctionRange = (None, None)\<rparr>,
                 statementCount = Some 0\<rparr>],
             blocks := blocks s @
               [\<lparr>bbParent = length (functionList s),
                 bbInsts =
                   [(instCount s, TryLoadGlobalPropertyInst (Some ''SyntaxError'')),
                    (instCount s + 1,
                       CallInst (InstructionV (instCount s)) LiteralUndefined [LiteralString msg]),
                    (instCount s + 2, ThrowInst (InstructionV (instCount s + 1)))]\<rparr>],
             instCount := instCount s + 3\<rparr>)"
  by (simp add: genSyntaxErrorFunction_def withLocalBuilder_def monad_defs createFunction_def
      makeFunction_def createParameter_def updFunction_def createBasicBlock_def
      setInsertionBlock_def createGlobalObjectProperty_def emitLoad_def insertInst_def
      getInsertionBlock_def updBlock_def nth_append)

lemmas builder_defs = createFunction_def makeFunction_def createParameter_def updFunction_def
  createBasicBlock_def createVariable_def setInsertionBlock_def setLocation_def
  getInsertionBlock_def getFunction_def insertInst_def updBlock_def getThisParameter_def
  getFunctionRec_def createGlobalObjectProperty_def

lemmas context_defs = curFunction_def updCurFunction_def getPreviousContext_def
  genAnonymousLabelName_def

subsection \<open>Capture slots of a non-arrow function\<close>

text \<open>
  C2.  Let the current context belong to a function whose \<open>this\<close> parameter exists and
  whose block is the insertion block.  Then \<open>initCaptureStateInES5Function\<close> succeeds,
  and: if the semantic info says the function contains no arrow function, the state
  is unchanged (no variable is created); otherwise exactly two variables are created
  in the function's scope, named by the anonymous labels \<open>this\<close> and \<open>new.target\<close>, the
  context's \<open>capturedThis\<close> and \<open>capturedNewTarget\<close> refer to them, and they are
  initialized by a store of the function's own \<open>this\<close> parameter and a store of a
  get-new-target instruction; and exactly when a contained arrow function also uses
  \<open>arguments\<close>, a third variable is created, \<open>capturedArguments\<close> refers to it and it is
  initialized by a store of a create-arguments instruction; otherwise
  \<open>capturedArguments\<close> stays as it was.
\<close>

theorem initCaptureState_slots:
  assumes ctx: "functionContext s = c # cs" and si: "ctxSemInfo c = Some si"
    and ib: "insertionBlock s = Some b" and b: "b < length (blocks s)"
    and own: "bbParent (blocks s ! b) = ctxFunction c"
    and this: "Some ''this'' \<in> set (parameters (functionList s ! ctxFunction c))"
  shows "\<exists>s'. initCaptureStateInES5Function s = Inr ((), s') \<and>
     (if \<not> containsArrowFunctions si then s' = s
      else
        variables s' = variables s @
          [\<lparr>varParent = ctxFunction c, varName = anonName (anonymousLabelCounter c) ''this''\<rparr>,
           \<lparr>varParent = ctxFunction c,
            varName = anonName (anonymousLabelCounter c + 1) ''new.target''\<rparr>] @
          (if containsArrowFunctionsUsingArguments si
           then [\<lparr>varParent = ctxFunction c,
                  varName = anonName (anonymousLabelCounter c + 2) ''arguments''\<rparr>]
           else []) \<and>
        map capturedThis (functionContext s') =
          Some (VariableV (length (variables s))) # map capturedThis cs \<and>
        map capturedNewTarget (functionContext s') =
          Some (VariableV (length (variables s) + 1)) # map capturedNewTarget cs \<and>
        map capturedArguments (functionContext s') =
          (if containsArrowFunctionsUsingArguments si
           then Some (VariableV (length (variables s) + 2))
           else capturedArguments c) # map capturedArguments cs \<and>
        bbInsts (blocks s' ! b) = bbInsts (blocks s ! b) @
          [(instCount s,
              StoreFrameInst (ParameterV (ctxFunction c) (Some ''this'')) (length (variables s))),
           (instCount s + 1, GetNewTargetInst),
           (instCount s + 2,
              StoreFrameInst (InstructionV (instCount s + 1)) (length (variables s) + 1))] @
          (if containsArrowFunctionsUsingArguments si
           then [(instCount s + 3, CreateArgumentsInst),
                 (instCount s + 4,
                    StoreFrameInst (InstructionV (instCount s + 3)) (length (variables s) + 2))]
           else []))"
  using assms
  by (simp add: initCaptureStateInES5Function_def monad_defs builder_defs context_defs
      emitStore_def anonName_def Let_def)

lemma captureSession_fields:
  "functionContext (captureSession ca ua) =
     hd (functionContext (captureSession ca ua)) # [topLevelContext]"
  "ctxSemInfo (hd (functionContext (captureSession ca ua))) =
     Some (plainInfo\<lparr>containsArrowFunctions := ca, containsArrowFunctionsUsingArguments := ua\<rparr>)"
  "insertionBlock (captureSession ca ua) = Some 1"
  "1 < length (blocks (captureSession ca ua))"
  "bbParent (blocks (captureSession ca ua) ! 1) = ctxFunction (hd (functionContext (captureSession ca ua)))"
  "Some ''this'' \<in> set (parameters (functionList (captureSession ca ua) !
      ctxFunction (hd (functionContext (captureSession ca ua)))))"
  "variables (captureSession ca ua) = []"
  by (simp_all add: captureSession_def monad_defs builder_defs FunctionContext_ctor_def
      topLevelState_def)

text \<open>The four combinations of the two flags, each run in a concrete session.\<close>

theorem initCaptureState_slots_witness:
  "(\<exists>s'. initCaptureStateInES5Function (captureSession False False) = Inr ((), s') \<and>
         length (variables s') = 0) \<and>
   (\<exists>s'. initCaptureStateInES5Function (captureSession False True) = Inr ((), s') \<and>
         length (variables s') = 0) \<and>
   (\<exists>s'. initCaptureStateInES5Function (captureSession True False) = Inr ((), s') \<and>
         length (variables s') = 2 \<and>
         map capturedArguments (functionContext s') = [None, None]) \<and>
   (\<exists>s'. initCaptureStateInES5Function (captureSession True True) = Inr ((), s') \<and>
         length (variables s') = 3 \<and>
         map capturedArguments (functionContext s') = [Some (VariableV 2), None])"
proof -
  have ff: "\<exists>s'. initCaptureStateInES5Function (captureSession False False) = Inr ((), s') \<and>
         length (variables s') = 0"
    using initCaptureState_slots [OF captureSession_fields(1-6), of False False]
    by (auto simp: plainInfo_def captureSession_fields(7))
  have ft: "\<exists>s'. initCaptureStateInES5Function (captureSession False True) = Inr ((), s') \<and>
         length (variables s') = 0"
    using initCaptureState_slots [OF captureSession_fields(1-6), of False True]
    by (auto simp: plainInfo_def captureSession_fields(7))
  have tf: "\<exists>s'. initCaptureStateInES5Function (captureSession True False) = Inr ((), s') \<and>
         length (variables s') = 2 \<and>
         map capturedArguments (functionContext s') = [None, None]"
    using initCaptureState_slots [OF captureSession_fields(1-6), of True False]
    by (auto simp: plainInfo_def captureSession_fields(7) topLevelContext_def
        captureSession_def monad_defs builder_defs FunctionContext_ctor_def topLevelState_def)
  have tt: "\<exists>s'. initCaptureStateInES5Function (captureSession True True) = Inr ((), s') \<and>
         length (variables s') = 3 \<and>
         map capturedArguments (functionContext s') = [Some (VariableV 2), None]"
    using initCaptureState_slots [OF captureSession_fields(1-6), of True True]
    by (auto simp: plainInfo_def captureSession_fields(7) topLevelContext_def)
  from ff ft tf tt show ?thesis by blast
qed

subsection \<open>The stub of a lazily compiled function\<close>

lemma lazyParams_result:
  "f < length (functionList s) \<Longrightarrow>
   lazyParams f ps s =
     (if list_all isIdentifierNode ps
      then Inr ((), updFunction f (\<lambda>fn. fn\<lparr>parameters := parameters fn @ map identifierName ps\<rparr>) s)
      else Inl (AssertionFailure ''cast<IdentifierNode>''))"
proof (induction ps arbitrary: s)
  case Nil
  then show ?case by (simp add: okR_def updFunction_def)
next
  case (Cons p ps)
  show ?case
  proof (cases p)
    case (IdentifierNode n)
    have "f < length (functionList (updFunction f (\<lambda>fn. fn\<lparr>parameters := parameters fn @ [Some n]\<rparr>) s))"
      using Cons.prems by (simp add: updFunction_def)
    from Cons.IH [OF this] Cons.prems IdentifierNode show ?thesis
      by (simp add: monad_defs createParameter_def updFunction_def)
  qed (simp_all add: failR_def)
qed




subsection \<open>The parameter list\<close>

lemmas extern_defs = genHermesInternalCall_def lrefEmitStore_def emitOptionalInitialization_def
  emitStore_def emitLoad_def

lemma emitFormal_effect:
  assumes "functionContext s \<noteq> []" and "insertionBlock s = Some b"
    and "f < length (functionList s)" and "b < length (blocks s)"
  shows "\<exists>s1 e1 nm. emitFormal f elem s = Inr ((), s1) \<and>
     functionContext s1 \<noteq> [] \<and> insertionBlock s1 = Some b \<and>
     length (functionList s1) = length (functionList s) \<and>
     length (blocks s1) = length (blocks s) \<and>
     parameters (functionList s1 ! f) = parameters (functionList s ! f) @ [nm] \<and>
     bbInsts (blocks s1 ! b) = bbInsts (blocks s ! b) @ e1"
proof -
  obtain c cs where ctx: "functionContext s = c # cs"
    using assms(1) by (cases "functionContext s") auto
  define param where "param = (case elem of AssignmentPatternNode l r \<Rightarrow> l | _ \<Rightarrow> elem)"
  define init where "init = (case elem of AssignmentPatternNode l r \<Rightarrow> Some r | _ \<Rightarrow> None)"
  have split: "(case elem of AssignmentPatternNode l r \<Rightarrow> (l, Some r) | _ \<Rightarrow> (elem, None)) = (param, init)"
    by (cases elem) (simp_all add: param_def init_def)
  show ?thesis
    using assms ctx
    by (cases param; cases init)
      (simp_all add: emitFormal_def split monad_defs builder_defs context_defs extern_defs)
qed

lemma emitParamLoop_nonrest:
  "\<not> isRestElementNode elem \<Longrightarrow>
   emitParamLoop f (elem # rest) idx = thenR (emitFormal f elem) (emitParamLoop f rest (idx + 1))"
  by (cases elem) (simp_all add: Let_def)


lemma emitParamLoop_formals:
  assumes "functionContext s \<noteq> []" and "insertionBlock s = Some b"
    and "f < length (functionList s)" and "b < length (blocks s)"
  shows "\<exists>s' names extra. emitParamLoop f ps idx s = Inr ((), s') \<and>
     parameters (functionList s' ! f) = parameters (functionList s ! f) @ names \<and>
     length names = length (takeWhile (\<lambda>p. \<not> isRestElementNode p) ps) \<and>
     bbInsts (blocks s' ! b) = bbInsts (blocks s ! b) @ extra"
  using assms
proof (induction ps arbitrary: s idx)
  case Nil
  then show ?case by (simp add: okR_def)
next
  case (Cons elem ps)
  show ?case
  proof (cases "isRestElementNode elem")
    case True
    then obtain target where "elem = RestElementNode target"
      by (cases elem) simp_all
    with Cons.prems show ?thesis
      by (simp add: Let_def monad_defs builder_defs extern_defs)
  next
    case False
    from emitFormal_effect [OF Cons.prems, of elem]
    obtain s1 e1 nm where s1: "emitFormal f elem s = Inr ((), s1)"
      and pre1: "functionContext s1 \<noteq> []" "insertionBlock s1 = Some b"
        "length (functionList s1) = length (functionList s)"
        "length (blocks s1) = length (blocks s)"
      and par1: "parameters (functionList s1 ! f) = parameters (functionList s ! f) @ [nm]"
      and ins1: "bbInsts (blocks s1 ! b) = bbInsts (blocks s ! b) @ e1"
      by blast
    from pre1 Cons.prems have "f < length (functionList s1)" "b < length (blocks s1)"
      by simp_all
    from Cons.IH [OF pre1(1,2) this, of "idx + 1"]
    obtain s' names extra where
      loop: "emitParamLoop f ps (idx + 1) s1 = Inr ((), s')"
      and par: "parameters (functionList s' ! f) = parameters (functionList s1 ! f) @ names"
      and len: "length names = length (takeWhile (\<lambda>p. \<not> isRestElementNode p) ps)"
      and ins: "bbInsts (blocks s' ! b) = bbInsts (blocks s1 ! b) @ extra"
      by blast
    have "emitParamLoop f (elem # ps) idx s = Inr ((), s')"
      using False s1 loop by (simp add: emitParamLoop_nonrest monad_defs del: emitParamLoop.simps)
    moreover have "parameters (functionList s' ! f) = parameters (functionList s ! f) @ (nm # names)"
      using par par1 by simp
    moreover have "length (nm # names) = length (takeWhile (\<lambda>p. \<not> isRestElementNode p) (elem # ps))"
      using len False by simp
    moreover have "bbInsts (blocks s' ! b) = bbInsts (blocks s ! b) @ (e1 @ extra)"
      using ins ins1 by simp
    ultimately show ?thesis by blast
  qed
qed

lemma emitParamLoop_rest:
  assumes "functionContext s \<noteq> []" and "insertionBlock s = Some b"
    and "f < length (functionList s)" and "b < length (blocks s)"
    and "list_all (\<lambda>p. \<not> isRestElementNode p) pre"
  shows "\<exists>s' names pfx k.
     emitParamLoop f (pre @ RestElementNode target # post) idx s = Inr ((), s') \<and>
     emitParamLoop f (pre @ [RestElementNode target]) idx s = Inr ((), s') \<and>
     parameters (functionList s' ! f) = parameters (functionList s ! f) @ names \<and>
     length names = length pre \<and>
     bbInsts (blocks s' ! b) = bbInsts (blocks s ! b) @ pfx @
       [(k, HermesInternalCallInst ''copyRestArgs'' LiteralUndefined
              [LiteralNumber (unat (idx + 1 + of_nat (length pre)))]),
        (Suc k, LRefStoreInst target (InstructionV k))]"
  using assms
proof (induction pre arbitrary: s idx)
  case Nil
  then show ?case
    by (simp add: Let_def monad_defs builder_defs extern_defs)
next
  case (Cons elem pre)
  from Cons.prems(5) have nonrest: "\<not> isRestElementNode elem"
    and restpre: "list_all (\<lambda>p. \<not> isRestElementNode p) pre"
    by simp_all
  from emitFormal_effect [OF Cons.prems(1-4), of elem]
  obtain s1 e1 nm where s1: "emitFormal f elem s = Inr ((), s1)"
    and pre1: "functionContext s1 \<noteq> []" "insertionBlock s1 = Some b"
      "length (functionList s1) = length (functionList s)"
      "length (blocks s1) = length (blocks s)"
    and par1: "parameters (functionList s1 ! f) = parameters (functionList s ! f) @ [nm]"
    and ins1: "bbInsts (blocks s1 ! b) = bbInsts (blocks s ! b) @ e1"
    by blast
  from pre1 Cons.prems have "f < length (functionList s1)" "b < length (blocks s1)"
    by simp_all
  from Cons.IH [OF pre1(1,2) this restpre, of "idx + 1"]
  obtain s' names pfx k where
    loop: "emitParamLoop f (pre @ RestElementNode target # post) (idx + 1) s1 = Inr ((), s')"
      "emitParamLoop f (pre @ [RestElementNode target]) (idx + 1) s1 = Inr ((), s')"
    and par: "parameters (functionList s' ! f) = parameters (functionList s1 ! f) @ names"
    and len: "length names = length pre"
    and ins: "bbInsts (blocks s' ! b) = bbInsts (blocks s1 ! b) @ pfx @
       [(k, HermesInternalCallInst ''copyRestArgs'' LiteralUndefined
              [LiteralNumber (unat (idx + 1 + 1 + of_nat (length pre)))]),
        (Suc k, LRefStoreInst target (InstructionV k))]"
    by blast
  have "emitParamLoop f ((elem # pre) @ RestElementNode target # post) idx s = Inr ((), s')"
    "emitParamLoop f ((elem # pre) @ [RestElementNode target]) idx s = Inr ((), s')"
    using nonrest s1 loop by (simp_all add: emitParamLoop_nonrest monad_defs del: emitParamLoop.simps)
  moreover have "parameters (functionList s' ! f) = parameters (functionList s ! f) @ (nm # names)"
    using par par1 by simp
  moreover have "length (nm # names) = length (elem # pre)"
    using len by simp
  moreover have "bbInsts (blocks s' ! b) = bbInsts (blocks s ! b) @ (e1 @ pfx) @
       [(k, HermesInternalCallInst ''copyRestArgs'' LiteralUndefined
              [LiteralNumber (unat (idx + 1 + of_nat (length (elem # pre))))]),
        (Suc k, LRefStoreInst target (InstructionV k))]"
    using ins ins1 by (simp add: add.commute add.left_commute)
  ultimately show ?case by blast
qed

lemma declareParamNames_effect:
  "nameTable s \<noteq> [] \<Longrightarrow>
   \<exists>s1. declareParamNames f ns s = Inr ((), s1) \<and>
     functionContext s1 = functionContext s \<and> insertionBlock s1 = insertionBlock s \<and>
     functionList s1 = functionList s \<and> blocks s1 = blocks s"
proof (induction ns arbitrary: s)
  case Nil
  then show ?case by (simp add: okR_def)
next
  case (Cons n ns)
  then obtain sc rest where nt: "nameTable s = sc # rest"
    by (cases "nameTable s") auto
  define s0 where "s0 = s\<lparr>variables := variables s @ [\<lparr>varParent = f, varName = Some n\<rparr>],
     nameTable := ((Some n, VariableV (length (variables s))) # sc) # rest\<rparr>"
  have "nameTable s0 \<noteq> []" by (simp add: s0_def)
  from Cons.IH [OF this] obtain s1 where
    "declareParamNames f ns s0 = Inr ((), s1)" "functionContext s1 = functionContext s0"
    "insertionBlock s1 = insertionBlock s0" "functionList s1 = functionList s0"
    "blocks s1 = blocks s0"
    by blast
  then show ?case
    using nt by (simp add: monad_defs createVariable_def insertName_def s0_def)
qed

text \<open>
  C5, as amended.  In a state with a current context, an insertion block and a name
  table scope, \<open>emitParameters\<close> succeeds, appends the parameter \<open>this\<close> to the
  function's parameter list first, and after it one formal parameter for each
  declared parameter that precedes the first rest element: as many formals as there
  are declared parameters when none is a rest element, whatever defaults and
  destructuring patterns they carry, and none for a rest element or after it.
\<close>

theorem emitParameters_formals:
  assumes "functionContext s = c # cs" and "ctxFunction c < length (functionList s)"
    and "insertionBlock s = Some b" and "b < length (blocks s)" and "nameTable s \<noteq> []"
  shows "\<exists>s' formals. emitParameters funcNode s = Inr ((), s') \<and>
     parameters (functionList s' ! ctxFunction c) =
       parameters (functionList s ! ctxFunction c) @ Some ''this'' # formals \<and>
     length formals = length (takeWhile (\<lambda>p. \<not> isRestElementNode p) (getParams funcNode))"
proof -
  define f where "f = ctxFunction c"
  define s0 where "s0 = updFunction f (\<lambda>fn. fn\<lparr>parameters := parameters fn @ [Some ''this'']\<rparr>) s"
  have nt0: "nameTable s0 \<noteq> []" using assms(5) by (simp add: s0_def updFunction_def)
  from declareParamNames_effect [OF nt0, of f "paramNames (getSemInfo funcNode)"]
  obtain s1 where s1: "declareParamNames f (paramNames (getSemInfo funcNode)) s0 = Inr ((), s1)"
    and same: "functionContext s1 = functionContext s0" "insertionBlock s1 = insertionBlock s0"
      "functionList s1 = functionList s0" "blocks s1 = blocks s0"
    by blast
  have pre1: "functionContext s1 \<noteq> []" "insertionBlock s1 = Some b"
    "f < length (functionList s1)" "b < length (blocks s1)"
    using assms same by (simp_all add: s0_def updFunction_def f_def)
  from emitParamLoop_formals [OF pre1, of "getParams funcNode" "0 - 1"]
  obtain s' names extra where
    loop: "emitParamLoop f (getParams funcNode) (0 - 1) s1 = Inr ((), s')"
    and par: "parameters (functionList s' ! f) = parameters (functionList s1 ! f) @ names"
    and len: "length names = length (takeWhile (\<lambda>p. \<not> isRestElementNode p) (getParams funcNode))"
    by blast
  have "emitParameters funcNode s = Inr ((), s')"
    using assms(1) s1 loop
    by (simp add: emitParameters_def monad_defs curFunction_def createParameter_def
        f_def s0_def Let_def)
  moreover have "parameters (functionList s' ! f) =
      parameters (functionList s ! f) @ Some ''this'' # names"
    using par same assms(2) by (simp add: s0_def updFunction_def f_def)
  ultimately show ?thesis using len unfolding f_def by blast
qed

lemma paramSession_fields:
  "functionContext paramSession = hd (functionContext paramSession) # [topLevelContext]"
  "ctxFunction (hd (functionContext paramSession)) < length (functionList paramSession)"
  "insertionBlock paramSession = Some 1"
  "1 < length (blocks paramSession)"
  "nameTable paramSession \<noteq> []"
  "ctxFunction (hd (functionContext paramSession)) = 1"
  "parameters (functionList paramSession ! Suc 0) = []"
  "bbInsts (blocks paramSession ! Suc 0) = []"
  by (simp_all add: paramSession_def monad_defs builder_defs FunctionContext_ctor_def
      topLevelState_def)

theorem emitParameters_formals_witness:
  "\<exists>s' formals. emitParameters restNode paramSession = Inr ((), s') \<and>
     parameters (functionList s' ! 1) = Some ''this'' # formals \<and> length formals = 1"
  using emitParameters_formals [OF paramSession_fields(1-5), of restNode]
  by (simp add: paramSession_fields(6,7) restNode_def getParams_def plainAttrs_def)

text \<open>
  For \<open>function f(a, ...r) {}\<close> two parameters are declared, but the emitted list is
  \<open>this, a\<close>: one formal, not two.
\<close>

theorem emitParameters_rest_arity_counterexample:
  "map_option (\<lambda>s. parameters (functionList s ! 1))
     (finalState (emitParameters restNode paramSession)) = Some [Some ''this'', Some ''a''] \<and>
   length (getParams restNode) = 2"
  by (simp add: finalState_def emitParameters_def emitFormal_def paramSession_def restNode_def
      getParams_def getSemInfo_def plainAttrs_def plainInfo_def topLevelState_def
      FunctionContext_ctor_def monad_defs builder_defs context_defs extern_defs insertName_def
      Let_def)

text \<open>
  C6.  Let the declared parameters be \<open>pre\<close>, a rest element around \<open>target\<close>, and
  \<open>post\<close>, with no rest element in \<open>pre\<close>, so that the rest element stands at position
  \<open>length pre\<close> (which the 32-bit counter can hold).  Then \<open>emitParameters\<close> succeeds, the
  last two instructions it emits are the call of \<open>copyRestArgs\<close> with the number
  \<open>length pre\<close> as its argument and the store of the call's result into \<open>target\<close>,
  the emitted formals are \<open>this\<close> and one for each parameter of \<open>pre\<close>, and the
  parameters in \<open>post\<close> have no effect at all: the run ends in the same state as for
  the list that stops at the rest element.
\<close>

theorem emitParameters_rest:
  assumes "functionContext s = c # cs" and "ctxFunction c < length (functionList s)"
    and "insertionBlock s = Some b" and "b < length (blocks s)" and "nameTable s \<noteq> []"
    and "getParams funcNode = pre @ RestElementNode target # post"
    and "list_all (\<lambda>p. \<not> isRestElementNode p) pre"
    and "length pre < 2 ^ 32"
  shows "\<exists>s' formals pfx k. emitParameters funcNode s = Inr ((), s') \<and>
     emitParameters (FunctionLikeNode ((attrs funcNode)\<lparr>params := pre @ [RestElementNode target]\<rparr>)
        (closures funcNode) (body funcNode)) s = Inr ((), s') \<and>
     parameters (functionList s' ! ctxFunction c) =
       parameters (functionList s ! ctxFunction c) @ Some ''this'' # formals \<and>
     length formals = length pre \<and>
     bbInsts (blocks s' ! b) = bbInsts (blocks s ! b) @ pfx @
       [(k, HermesInternalCallInst ''copyRestArgs'' LiteralUndefined [LiteralNumber (length pre)]),
        (Suc k, LRefStoreInst target (InstructionV k))]"
proof -
  define f where "f = ctxFunction c"
  define s0 where "s0 = updFunction f (\<lambda>fn. fn\<lparr>parameters := parameters fn @ [Some ''this'']\<rparr>) s"
  have nt0: "nameTable s0 \<noteq> []" using assms(5) by (simp add: s0_def updFunction_def)
  from declareParamNames_effect [OF nt0, of f "paramNames (getSemInfo funcNode)"]
  obtain s1 where s1: "declareParamNames f (paramNames (getSemInfo funcNode)) s0 = Inr ((), s1)"
    and same: "functionContext s1 = functionContext s0" "insertionBlock s1 = insertionBlock s0"
      "functionList s1 = functionList s0" "blocks s1 = blocks s0"
    by blast
  have pre1: "functionContext s1 \<noteq> []" "insertionBlock s1 = Some b"
    "f < length (functionList s1)" "b < length (blocks s1)"
    using assms same by (simp_all add: s0_def updFunction_def f_def)
  from emitParamLoop_rest [OF pre1 assms(7), of target post "0 - 1"]
  obtain s' names pfx k where
    loop: "emitParamLoop f (pre @ RestElementNode target # post) (0 - 1) s1 = Inr ((), s')"
      "emitParamLoop f (pre @ [RestElementNode target]) (0 - 1) s1 = Inr ((), s')"
    and par: "parameters (functionList s' ! f) = parameters (functionList s1 ! f) @ names"
    and len: "length names = length pre"
    and ins: "bbInsts (blocks s' ! b) = bbInsts (blocks s1 ! b) @ pfx @
       [(k, HermesInternalCallInst ''copyRestArgs'' LiteralUndefined
              [LiteralNumber (unat ((0 - 1 :: 32 word) + 1 + of_nat (length pre)))]),
        (Suc k, LRefStoreInst target (InstructionV k))]"
    by blast
  have idx: "unat ((0 - 1 :: 32 word) + 1 + of_nat (length pre)) = length pre"
    using assms(8) by (simp add: unat_of_nat)
  have "emitParameters funcNode s = Inr ((), s')"
    using assms(1,6) s1 loop(1)
    by (simp add: emitParameters_def monad_defs curFunction_def createParameter_def
        f_def s0_def Let_def)
  moreover have "emitParameters (FunctionLikeNode
        ((attrs funcNode)\<lparr>params := pre @ [RestElementNode target]\<rparr>)
        (closures funcNode) (body funcNode)) s = Inr ((), s')"
    using assms(1) s1 loop(2)
    by (simp add: emitParameters_def monad_defs curFunction_def createParameter_def
        f_def s0_def Let_def getParams_def getSemInfo_def)
  moreover have "parameters (functionList s' ! f) =
      parameters (functionList s ! f) @ Some ''this'' # names"
    using par same assms(2) by (simp add: s0_def updFunction_def f_def)
  moreover have "bbInsts (blocks s' ! b) = bbInsts (blocks s ! b) @ pfx @
       [(k, HermesInternalCallInst ''copyRestArgs'' LiteralUndefined [LiteralNumber (length pre)]),
        (Suc k, LRefStoreInst target (InstructionV k))]"
    using ins same idx by (simp add: s0_def updFunction_def)
  ultimately show ?thesis using len unfolding f_def by blast
qed

theorem emitParameters_rest_witness:
  "\<exists>s' formals pfx k. emitParameters restNode paramSession = Inr ((), s') \<and>
     parameters (functionList s' ! 1) = Some ''this'' # formals \<and> length formals = 1 \<and>
     bbInsts (blocks s' ! 1) = pfx @
       [(k, HermesInternalCallInst ''copyRestArgs'' LiteralUndefined [LiteralNumber 1]),
        (Suc k, LRefStoreInst (IdentifierNode ''r'') (InstructionV k))]"
proof -
  have params: "getParams restNode =
      [IdentifierNode ''a''] @ RestElementNode (IdentifierNode ''r'') # []"
    by (simp add: restNode_def getParams_def plainAttrs_def)
  have nonrest: "list_all (\<lambda>p. \<not> isRestElementNode p) [IdentifierNode ''a'']"
    by simp
  have small: "length [IdentifierNode ''a''] < 2 ^ 32"
    by simp
  from emitParameters_rest [OF paramSession_fields(1-5) params nonrest small]
  show ?thesis
    by (simp add: paramSession_fields(6-8)) blast
qed

subsection \<open>Relations between the first and the last state of a run\<close>

lemma relI: "(\<And>s x s'. m s = Inr (x, s') \<Longrightarrow> R s s') \<Longrightarrow> rel m R"
  by (simp add: rel_def)

lemma relD: "rel m R \<Longrightarrow> m s = Inr (x, s') \<Longrightarrow> R s s'"
  by (simp add: rel_def)

lemma rel_weaken: "rel m R \<Longrightarrow> (\<And>s s'. R s s' \<Longrightarrow> R' s s') \<Longrightarrow> rel m R'"
  by (auto simp: rel_def)

lemma rel_bind_gen:
  assumes "rel m R1" and "\<And>x. rel (f x) R2" and "\<And>s s1 s2. R1 s s1 \<Longrightarrow> R2 s1 s2 \<Longrightarrow> R s s2"
  shows "rel (bindR m f) R"
  using assms unfolding rel_def bindR_def
  by (fastforce split: sum.splits)

lemma rel_then_gen:
  assumes "rel m R1" and "rel k R2" and "\<And>s s1 s2. R1 s s1 \<Longrightarrow> R2 s1 s2 \<Longrightarrow> R s s2"
  shows "rel (thenR m k) R"
  unfolding thenR_def using assms by (auto intro: rel_bind_gen)

lemma rel_ok: "(\<And>s. R s s) \<Longrightarrow> rel (okR x) R"
  by (simp add: rel_def okR_def)

lemma rel_fail: "rel (failR e) R"
  by (simp add: rel_def failR_def)

lemma sameStack_refl: "sameStack s s"
  by (simp add: sameStack_def)

lemma sameStack_trans: "sameStack s s1 \<Longrightarrow> sameStack s1 s2 \<Longrightarrow> sameStack s s2"
  by (simp add: sameStack_def)

lemma sameTail_refl: "sameTail s s"
  by (simp add: sameTail_def)

lemma sameTail_trans: "sameTail s s1 \<Longrightarrow> sameTail s1 s2 \<Longrightarrow> sameTail s s2"
  by (simp add: sameTail_def)

lemma sameStack_sameTail: "sameStack s s' \<Longrightarrow> sameTail s s'"
  by (simp add: sameStack_def sameTail_def)

lemma sameTail_popped: "sameTail s s1 \<Longrightarrow> popped s1 s2 \<Longrightarrow> popped s s2"
  by (simp add: sameTail_def popped_def)

text \<open>The rules by which the relations are composed along a chain of binds.\<close>

lemma rel_bind_SS: "rel m sameStack \<Longrightarrow> (\<And>x. rel (f x) sameStack) \<Longrightarrow> rel (bindR m f) sameStack"
  by (rule rel_bind_gen [where ?R1.0 = sameStack and ?R2.0 = sameStack]) (auto intro: sameStack_trans)

lemma rel_then_SS: "rel m sameStack \<Longrightarrow> rel k sameStack \<Longrightarrow> rel (thenR m k) sameStack"
  by (rule rel_then_gen [where ?R1.0 = sameStack and ?R2.0 = sameStack]) (auto intro: sameStack_trans)

lemma rel_bind_TT: "rel m sameTail \<Longrightarrow> (\<And>x. rel (f x) sameTail) \<Longrightarrow> rel (bindR m f) sameTail"
  by (rule rel_bind_gen [where ?R1.0 = sameTail and ?R2.0 = sameTail]) (auto intro: sameTail_trans)

lemma rel_then_TT: "rel m sameTail \<Longrightarrow> rel k sameTail \<Longrightarrow> rel (thenR m k) sameTail"
  by (rule rel_then_gen [where ?R1.0 = sameTail and ?R2.0 = sameTail]) (auto intro: sameTail_trans)

lemma rel_bind_TP: "rel m sameTail \<Longrightarrow> (\<And>x. rel (f x) popped) \<Longrightarrow> rel (bindR m f) popped"
  by (rule rel_bind_gen [where ?R1.0 = sameTail and ?R2.0 = popped]) (auto intro: sameTail_popped)

lemma rel_then_TP: "rel m sameTail \<Longrightarrow> rel k popped \<Longrightarrow> rel (thenR m k) popped"
  by (rule rel_then_gen [where ?R1.0 = sameTail and ?R2.0 = popped]) (auto intro: sameTail_popped)

lemma rel_S_T: "rel m sameStack \<Longrightarrow> rel m sameTail"
  by (erule rel_weaken) (rule sameStack_sameTail)

lemma rel_unchanged:
  "(\<And>s x s'. m s = Inr (x, s') \<Longrightarrow> functionContext s' = functionContext s) \<Longrightarrow> rel m sameStack"
  by (rule relI) (simp add: sameStack_def)

lemma rel_ctor_bracket:
  assumes "rel m popped"
  shows "rel (thenR (FunctionContext_ctor f si) m) sameStack"
proof (rule rel_then_gen [where ?R1.0 = "\<lambda>s s'. tl (functionContext s') = functionContext s"
      and ?R2.0 = popped])
  show "rel (FunctionContext_ctor f si) (\<lambda>s s'. tl (functionContext s') = functionContext s)"
    by (rule relI) (auto simp: FunctionContext_ctor_def modifyR_def)
  show "rel m popped" by fact
  show "\<And>s s1 s2. tl (functionContext s1) = functionContext s \<Longrightarrow> popped s1 s2 \<Longrightarrow> sameStack s s2"
    by (simp add: popped_def sameStack_def)
qed

lemma rel_dtor_popped:
  assumes "rel k sameStack"
  shows "rel (thenR FunctionContext_dtor k) popped"
proof (rule rel_then_gen [where ?R1.0 = "\<lambda>s s'. functionContext s' = tl (functionContext s)"
      and ?R2.0 = sameStack])
  show "rel FunctionContext_dtor (\<lambda>s s'. functionContext s' = tl (functionContext s))"
    by (rule relI) (auto simp: FunctionContext_dtor_def split: list.splits)
  show "rel k sameStack" by fact
  show "\<And>s s1 s2. functionContext s1 = tl (functionContext s) \<Longrightarrow> sameStack s1 s2 \<Longrightarrow> popped s s2"
    by (simp add: popped_def sameStack_def)
qed

subsection \<open>The stack of function contexts\<close>

text \<open>
  Lowering a nested function pushes a context and pops it again: every function of
  the lowering leaves the contexts below the current one as they are, and changes at
  most the label counter and the entry terminator of the current one.
\<close>

named_theorems stack_intros

lemma rel_if: "(c \<Longrightarrow> rel a R) \<Longrightarrow> (\<not> c \<Longrightarrow> rel b R) \<Longrightarrow> rel (if c then a else b) R"
  by simp

lemmas [stack_intros] = rel_bind_SS rel_then_SS rel_bind_TT rel_then_TT rel_if rel_fail

lemma rel_ok_S [stack_intros]: "rel (okR x) sameStack"
  by (rule rel_ok) (rule sameStack_refl)

lemma rel_ok_T [stack_intros]: "rel (okR x) sameTail"
  by (rule rel_ok) (rule sameTail_refl)

lemma stack_prims [stack_intros]:
  "rel (createFunction n dk st rg gl) sameStack"
  "rel (createGeneratorFunction n dk st) sameStack"
  "rel (createGeneratorInnerFunction n dk st rg) sameStack"
  "rel (modifyR (updFunction f g)) sameStack"
  "rel saveCurrentScope sameStack"
  "rel (createParameter f n) sameStack"
  "rel (createBasicBlock f) sameStack"
  "rel (createVariable f n) sameStack"
  "rel (setInsertionBlock b) sameStack"
  "rel (setLocation l) sameStack"
  "rel (insertInst i) sameStack"
  "rel getFunction sameStack"
  "rel (getThisParameter f) sameStack"
  "rel (getFunctionRec f) sameStack"
  "rel (lookupName n) sameStack"
  "rel (insertName n v) sameStack"
  "rel (insertIntoScope sc n v) sameStack"
  "rel pushScope sameStack"
  "rel popScope sameStack"
  "rel (getNameFieldFromID idn) sameStack"
  "rel curFunction sameStack"
  "rel getPreviousContext sameStack"
  "rel (createGlobalObjectProperty n d) sameStack"
  by (rule rel_unchanged;
      auto simp: monad_defs builder_defs createGeneratorFunction_def
        createGeneratorInnerFunction_def saveCurrentScope_def lookupName_def insertName_def
        insertIntoScope_def pushScope_def popScope_def getNameFieldFromID_def
        curFunction_def getPreviousContext_def Let_def
      split: option.splits list.splits if_splits sum.splits)+

lemma stack_prims_T [stack_intros]:
  "rel (createFunction n dk st rg gl) sameTail"
  "rel (createBasicBlock f) sameTail"
  "rel (createVariable f n) sameTail"
  "rel (setInsertionBlock b) sameTail"
  "rel (insertInst i) sameTail"
  "rel getFunction sameTail"
  "rel (getThisParameter f) sameTail"
  "rel curFunction sameTail"
  "rel getPreviousContext sameTail"
  by (rule rel_S_T, rule stack_prims)+

lemma stack_updCur_T [stack_intros]: "rel (updCurFunction g) sameTail"
  by (rule relI) (auto simp: updCurFunction_def sameTail_def split: list.splits)

lemma stack_updCur_S:
  "(\<And>c. ctxKeep (g c) = ctxKeep c) \<Longrightarrow> rel (updCurFunction g) sameStack"
  by (rule relI) (auto simp: updCurFunction_def sameStack_def split: list.splits)

lemma stack_anon [stack_intros]: "rel (genAnonymousLabelName hint) sameStack"
  unfolding genAnonymousLabelName_def
  by (intro stack_intros stack_updCur_S) (simp add: ctxKeep_def)

lemma stack_anon_T [stack_intros]: "rel (genAnonymousLabelName hint) sameTail"
  by (rule rel_S_T) (rule stack_anon)

lemma stack_extern [stack_intros]:
  "rel (emitStore v p) sameStack"
  "rel (emitLoad v) sameStack"
  "rel (genResumeGenerator v b) sameStack"
  "rel (genHermesInternalCall n v vs) sameStack"
  "rel (lrefEmitStore t v) sameStack"
  "rel (emitOptionalInitialization v i) sameStack"
  unfolding emitStore_def emitLoad_def genResumeGenerator_def genHermesInternalCall_def
    lrefEmitStore_def emitOptionalInitialization_def
  by (auto intro!: stack_intros split: Value.splits option.splits)

lemma stack_extern_T [stack_intros]: "rel (emitStore v p) sameTail"
  by (rule rel_S_T) (rule stack_extern)

lemma stack_declare [stack_intros]: "rel (declareVariableOrGlobalProperty f n) sameStack"
  by (rule rel_unchanged)
    (auto simp: declareVariableOrGlobalProperty_def monad_defs builder_defs lookupName_def
      insertName_def Let_def split: option.splits list.splits if_splits sum.splits Value.splits)

lemma stack_lazyParams [stack_intros]: "rel (lazyParams f ps) sameStack"
  by (induction ps) (auto intro!: stack_intros split: Node.splits)

lemma stack_hoist [stack_intros]: "rel (hoistVarDecls f ns) sameStack"
  by (induction ns) (auto intro!: stack_intros split: Value.splits)

lemma stack_declareClosures [stack_intros]: "rel (declareClosures f cs) sameStack"
  by (induction cs) (auto intro!: stack_intros)

lemma stack_declareParamNames [stack_intros]: "rel (declareParamNames f ns) sameStack"
  by (induction ns) (auto intro!: stack_intros)

lemma stack_emitFormal [stack_intros]: "rel (emitFormal f elem) sameStack"
  unfolding emitFormal_def
  by (auto intro!: stack_intros simp: Let_def split: Node.splits prod.splits)

lemma stack_emitParamLoop [stack_intros]: "rel (emitParamLoop f ps idx) sameStack"
  by (induction ps arbitrary: idx) (auto intro!: stack_intros simp: Let_def split: Node.splits)

lemma stack_emitParameters [stack_intros]: "rel (emitParameters n) sameStack"
  unfolding emitParameters_def
  by (auto intro!: stack_intros simp: Let_def)

lemma stack_initCapture [stack_intros]: "rel initCaptureStateInES5Function sameTail"
  unfolding initCaptureStateInES5Function_def
  by (auto intro!: stack_intros simp: Let_def split: option.splits)

lemma stack_moveFirstBefore [stack_intros]: "rel (moveFirstBefore nb t) sameStack"
  by (rule rel_unchanged)
    (auto simp: moveFirstBefore_def updBlock_def Let_def split: list.splits option.splits)

lemma stack_moveAllBefore [stack_intros]: "rel (moveAllBefore k nb t) sameStack"
proof (induction k)
  case 0
  show ?case by (rule rel_unchanged) (auto split: if_splits)
next
  case (Suc k)
  have "rel (thenR (moveFirstBefore nb t) (moveAllBefore k nb t)) sameStack"
    using Suc by (intro stack_intros)
  then show ?case
    by (auto simp: rel_def sameStack_refl split: if_splits)
qed

lemma stack_erase [stack_intros]:
  "rel (eraseInst t) sameStack"
  "rel (eraseBlock b) sameStack"
  "rel (getInst t) sameStack"
  "rel (getNumUsers b) sameStack"
  "rel (hasUser b t) sameStack"
  by (rule rel_unchanged;
      auto simp: eraseInst_def eraseBlock_def getInst_def getNumUsers_def hasUser_def
        updBlock_def updFunction_def split: option.splits)+

lemma stack_merge [stack_intros]: "rel (mergeEntryAndNextBlock nb t) sameStack"
  unfolding mergeEntryAndNextBlock_def
  by (intro stack_intros stack_updCur_S rel_unchanged) (auto simp: ctxKeep_def)

lemma stack_epilogue [stack_intros]: "rel (emitFunctionEpilogue rv) sameStack"
  unfolding emitFunctionEpilogue_def
  by (auto intro!: stack_intros simp: Let_def split: option.splits)

lemma stack_epilogue_T [stack_intros]: "rel (emitFunctionEpilogue rv) sameTail"
  by (rule rel_S_T) (rule stack_epilogue)

lemmas lowering_induct =
  genFunctionDeclaration_genFunctionExpression_genArrowFunctionExpression_genES5Function_genGeneratorFunction_emitFunctionPrologue_genClosures_genStatement_genBody.induct

lemmas bracket_intros = rel_ctor_bracket rel_dtor_popped rel_bind_TP rel_then_TP

lemmas stack_intros_T = stack_prims [THEN rel_S_T] stack_extern [THEN rel_S_T]
  stack_anon [THEN rel_S_T] stack_epilogue [THEN rel_S_T]

lemma stack_lowering:
  "rel (genFunctionDeclaration func) sameStack"
  "rel (genFunctionExpression FE nameHint) sameStack"
  "rel (genArrowFunctionExpression AF nameHint2) sameStack"
  "rel (genES5Function origName lca functionNode isInner) sameStack"
  "rel (genGeneratorFunction origName2 lca2 functionNode2) sameStack"
  "rel (emitFunctionPrologue funcNode entry) sameStack"
  "rel (genClosures cs) sameStack"
  "rel (genStatement st) sameStack"
  "rel (genBody sts) sameStack"
proof (induction func and FE nameHint and AF nameHint2 and origName lca functionNode isInner
    and origName2 lca2 functionNode2 and funcNode entry and cs and st and sts
    rule: lowering_induct)
  case (1 func)
  show ?case
    unfolding genFunctionDeclaration.simps [of func]
    by (auto intro!: stack_intros "1.IH" split: option.splits)
next
  case (2 FE nameHint)
  show ?case
    unfolding genFunctionExpression.simps [of FE nameHint]
    by (auto intro!: stack_intros "2.IH" split: option.splits)
next
  case (3 AF nameHint)
  note ih = "3.IH" "3.IH" [THEN rel_S_T]
  show ?case
    unfolding genArrowFunctionExpression.simps [of AF nameHint]
    by (intro bracket_intros stack_intros ih)
next
  case (4 origName lca functionNode isGeneratorInnerFunction)
  show ?case
  proof (cases "isLazyFunctionBody (attrs functionNode)")
    case True
    then show ?thesis
      unfolding genES5Function.simps [of origName lca functionNode isGeneratorInnerFunction]
      by (auto intro!: stack_intros)
  next
    case False
    show ?thesis
    proof (cases isGeneratorInnerFunction)
      case True
      note ih' = "4.IH" (1) [OF False True] "4.IH" (1) [OF False True, THEN rel_S_T]
        "4.IH" (3) [OF False] "4.IH" (3) [OF False, THEN rel_S_T]
      show ?thesis
        unfolding genES5Function.simps [of origName lca functionNode isGeneratorInnerFunction]
        using False True
        by simp (intro bracket_intros stack_intros stack_intros_T ih')
    next
      case inner: False
      note ih' = "4.IH" (2) [OF False inner] "4.IH" (2) [OF False inner, THEN rel_S_T]
        "4.IH" (3) [OF False] "4.IH" (3) [OF False, THEN rel_S_T]
      show ?thesis
        unfolding genES5Function.simps [of origName lca functionNode isGeneratorInnerFunction]
        using False inner
        by simp (intro bracket_intros stack_intros stack_intros_T ih')
    qed
  qed
next
  case (5 origName lca functionNode)
  note ih = "5.IH" "5.IH" [THEN rel_S_T]
  show ?case
    unfolding genGeneratorFunction.simps [of origName lca functionNode]
    by (intro bracket_intros stack_intros ih)
next
  case (6 funcNode entry)
  show ?case
    unfolding emitFunctionPrologue.simps [of funcNode entry]
    by (auto intro!: stack_intros stack_updCur_S "6.IH" simp: ctxKeep_def split: option.splits)
next
  case 7
  show ?case by (simp add: stack_intros)
next
  case (8 funcDecl rest)
  then show ?case by (auto intro!: stack_intros)
next
  case (9 FE nameHint)
  then show ?case by (auto intro!: stack_intros)
next
  case (10 AF nameHint)
  then show ?case by (auto intro!: stack_intros)
next
  case (11 n)
  show ?case by (auto intro!: stack_intros)
next
  case 12
  show ?case by (simp add: stack_intros)
next
  case (13 st rest)
  then show ?case by (auto intro!: stack_intros)
qed

lemma genArrowFunctionExpression_entry:
  "genArrowFunctionExpression AF nameHint =
     bindR (arrowFunctionEntry AF nameHint) (\<lambda>newFunc.
     thenR (genBody (body AF))
    (thenR (emitFunctionEpilogue (Some LiteralUndefined))
    (thenR FunctionContext_dtor
       (insertInst (CreateFunctionInst newFunc)))))"
  unfolding genArrowFunctionExpression.simps [of AF nameHint] arrowFunctionEntry_def
  by (rule ext) (simp add: monad_defs split: sum.splits prod.splits)

subsection \<open>Captures of arrow functions\<close>

lemma ctxKeep_fields:
  assumes "ctxKeep a = ctxKeep c"
  shows "ctxFunction a = ctxFunction c" "capturedThis a = capturedThis c"
    "capturedNewTarget a = capturedNewTarget c" "capturedArguments a = capturedArguments c"
    "builderSaveState a = builderSaveState c" "ctxSemInfo a = ctxSemInfo c"
    "ctxScope a = ctxScope c"
  using arg_cong [OF assms, of ctxFunction] arg_cong [OF assms, of capturedThis]
    arg_cong [OF assms, of capturedNewTarget] arg_cong [OF assms, of capturedArguments]
    arg_cong [OF assms, of builderSaveState] arg_cong [OF assms, of ctxSemInfo]
    arg_cong [OF assms, of ctxScope]
  by (simp_all add: ctxKeep_def)

lemma bindR_InrE:
  assumes "bindR m f s = Inr (y, s'')"
  obtains x s' where "m s = Inr (x, s')" and "f x s' = Inr (y, s'')"
  using assms by (auto simp: bindR_def split: sum.splits)

lemma thenR_InrE:
  assumes "thenR m k s = Inr (y, s'')"
  obtains x s' where "m s = Inr (x, s')" and "k s' = Inr (y, s'')"
  using assms by (auto simp: thenR_def bindR_def split: sum.splits)

lemma arrowFunctionEntry_stack:
  assumes "functionContext s = prev # rest"
    and "arrowFunctionEntry AF nameHint s = Inr (newFunc, s')"
  shows "\<exists>c. functionContext s' = c # prev # rest \<and> ctxFunction c = newFunc \<and>
    capturesOf c = capturesOf prev"
  using assms(2) unfolding arrowFunctionEntry_def
proof (elim bindR_InrE thenR_InrE)
  fix newFunc0 s1 u2 s2 entry s3 u4 s4 prev' s5 u6 s6 u7 s7 u8 s8
  assume s1: "createFunction nameHint ES6Arrow (strictness (attrs AF))
      (nodeSourceRange (attrs AF)) False s = Inr (newFunc0, s1)"
    and s2: "FunctionContext_ctor newFunc0 (Some (getSemInfo AF)) s1 = Inr (u2, s2)"
    and s3: "createBasicBlock newFunc0 s2 = Inr (entry, s3)"
    and s4: "emitFunctionPrologue AF entry s3 = Inr (u4, s4)"
    and s5: "getPreviousContext s4 = Inr (prev', s5)"
    and s6: "updCurFunction (\<lambda>c. c\<lparr>capturedThis := capturedThis prev'\<rparr>) s5 = Inr (u6, s6)"
    and s7: "updCurFunction (\<lambda>c. c\<lparr>capturedNewTarget := capturedNewTarget prev'\<rparr>) s6 = Inr (u7, s7)"
    and s8: "updCurFunction (\<lambda>c. c\<lparr>capturedArguments := capturedArguments prev'\<rparr>) s7 = Inr (u8, s8)"
    and res: "okR newFunc0 s8 = Inr (newFunc, s')"
  have fc3: "\<exists>c. functionContext s3 = c # prev # rest \<and> ctxFunction c = newFunc0"
    using s1 s2 s3 assms(1)
    by (auto simp: createFunction_def makeFunction_def FunctionContext_ctor_def modifyR_def
        createBasicBlock_def updFunction_def)
  from relD [OF stack_lowering(6) s4] have "sameStack s3 s4" .
  with fc3 have fc4: "\<exists>c. functionContext s4 = c # prev # rest \<and> ctxFunction c = newFunc0"
    by (cases "functionContext s4") (auto simp: sameStack_def dest: ctxKeep_fields(1))
  then obtain c4 where c4: "functionContext s4 = c4 # prev # rest" "ctxFunction c4 = newFunc0"
    by blast
  from s5 c4 have "prev' = prev" "s5 = s4"
    by (auto simp: getPreviousContext_def)
  with s6 s7 s8 res c4 show ?thesis
    by (auto simp: updCurFunction_def okR_def capturesOf_def)
qed




lemmas eval_defs = monad_defs builder_defs context_defs extern_defs
  FunctionContext_ctor_def FunctionContext_dtor_def
  emitFunctionPrologue.simps emitParameters_def emitFormal_def getSemInfo_def getParams_def
  plainAttrs_def plainInfo_def topLevelState_def topLevelContext_def
  lookupName_def insertName_def insertIntoScope_def pushScope_def popScope_def
  declareVariableOrGlobalProperty_def getNameFieldFromID_def instId_def Let_def

lemma materializedSession_stack:
  "functionContext materializedSession =
     [] @ hd (functionContext materializedSession) # [topLevelContext]"
  "capturesOf (hd (functionContext materializedSession)) =
     (Some (VariableV 0), Some (VariableV 1), Some (VariableV 2))"
  by (simp_all add: materializedSession_def captureSession_def
      initCaptureStateInES5Function_def capturesOf_def eval_defs)

lemma nested_arrows_state:
  "\<exists>f1 s1 f2 s2.
     arrowFunctionEntry plainArrow None materializedSession = Inr (f1, s1) \<and>
     arrowFunctionEntry plainArrow None s1 = Inr (f2, s2) \<and>
     length (variables materializedSession) = 3 \<and>
     variables s2 = variables materializedSession"
  by (simp add: arrowFunctionEntry_def plainArrow_def materializedSession_def captureSession_def
      initCaptureStateInES5Function_def eval_defs)



text \<open>
  C9.  The constructor of a context pushes a context whose \<open>capturedNewTarget\<close> is the
  literal undefined, while \<open>capturedThis\<close> and \<open>capturedArguments\<close> are absent.  And
  when the body of an arrow function is lowered, the \<open>capturedNewTarget\<close> of its context
  is the one of the context that was current when the arrow function was entered,
  whatever that is: it is copied from the parent.  So it is the literal undefined when
  the parent still carries what the constructor left.
\<close>

theorem newTarget_copied_from_parent:
  assumes "functionContext s = prev # rest"
    and "arrowFunctionEntry AF nameHint s = Inr (newFunc, s')"
  shows "(\<exists>s1 c. FunctionContext_ctor fn si s0 = Inr ((), s1) \<and>
            functionContext s1 = c # functionContext s0 \<and>
            capturedNewTarget c = Some LiteralUndefined \<and>
            capturedThis c = None \<and> capturedArguments c = None) \<and>
         genArrowFunctionExpression AF nameHint =
           bindR (arrowFunctionEntry AF nameHint) (\<lambda>newFunc.
           thenR (genBody (body AF))
          (thenR (emitFunctionEpilogue (Some LiteralUndefined))
          (thenR FunctionContext_dtor
             (insertInst (CreateFunctionInst newFunc))))) \<and>
         (\<exists>c. functionContext s' = c # prev # rest \<and>
            capturedNewTarget c = capturedNewTarget prev \<and>
            (capturedNewTarget prev = Some LiteralUndefined \<longrightarrow>
               capturedNewTarget c = Some LiteralUndefined))"
proof -
  from arrowFunctionEntry_stack [OF assms]
  obtain c where "functionContext s' = c # prev # rest" "capturesOf c = capturesOf prev"
    by blast
  then have "\<exists>c. functionContext s' = c # prev # rest \<and>
      capturedNewTarget c = capturedNewTarget prev \<and>
      (capturedNewTarget prev = Some LiteralUndefined \<longrightarrow>
         capturedNewTarget c = Some LiteralUndefined)"
    by (auto simp: capturesOf_def)
  then show ?thesis
    by (simp add: FunctionContext_ctor_def modifyR_def genArrowFunctionExpression_entry [symmetric])
qed

lemma top_arrow_run:
  "\<exists>f1 s1. arrowFunctionEntry plainArrow None topLevelState = Inr (f1, s1)"
  by (simp add: arrowFunctionEntry_def plainArrow_def eval_defs)

lemma materialized_arrow_run:
  "\<exists>f1 s1. arrowFunctionEntry plainArrow None materializedSession = Inr (f1, s1)"
  using nested_arrows_state by blast

text \<open>
  An arrow function at the top level carries the literal undefined, and one in a function
  with materialized captures carries the slot of that function.
\<close>

theorem newTarget_copied_from_parent_witness:
  "(\<exists>f1 s1 c. arrowFunctionEntry plainArrow None topLevelState = Inr (f1, s1) \<and>
     functionContext s1 = [c, topLevelContext] \<and>
     capturedNewTarget c = Some LiteralUndefined) \<and>
   (\<exists>f1 s1 c F. arrowFunctionEntry plainArrow None materializedSession = Inr (f1, s1) \<and>
     functionContext s1 = [c, F, topLevelContext] \<and>
     capturedNewTarget F = Some (VariableV 1) \<and>
     capturedNewTarget c = Some (VariableV 1))"
proof -
  from top_arrow_run obtain f1 s1 where
    r1: "arrowFunctionEntry plainArrow None topLevelState = Inr (f1, s1)"
    by blast
  have st: "functionContext topLevelState = topLevelContext # []"
    by (simp add: topLevelState_def)
  have nt: "capturedNewTarget topLevelContext = Some LiteralUndefined"
    by (simp add: topLevelContext_def)
  from materialized_arrow_run obtain f2 s2 where
    r2: "arrowFunctionEntry plainArrow None materializedSession = Inr (f2, s2)"
    by blast
  let ?F = "hd (functionContext materializedSession)"
  have st2: "functionContext materializedSession = ?F # [topLevelContext]"
    using materializedSession_stack(1) by simp
  have nt2: "capturedNewTarget ?F = Some (VariableV 1)"
    using materializedSession_stack(2) by (simp add: capturesOf_def)
  from newTarget_copied_from_parent [OF st r1] newTarget_copied_from_parent [OF st2 r2]
    r1 r2 nt nt2
  show ?thesis
    by (metis (no_types, lifting))
qed


subsection \<open>Fresh instruction numbers\<close>

lemma fresh_refl: "fresh s s"
  by (simp add: fresh_def)

lemma fresh_trans: "fresh z s \<Longrightarrow> fresh s s' \<Longrightarrow> fresh z s'"
  unfolding fresh_def by (metis (no_types, lifting) dual_order.trans)

lemma step_refl: "wfInsts s \<Longrightarrow> step s s"
  by (simp add: step_def fresh_refl)

lemma step_trans: "step s s1 \<Longrightarrow> step s1 s2 \<Longrightarrow> step s s2"
  by (auto simp: step_def intro: fresh_trans)

lemma in_allInsts:
  "b < length (blocks s) \<Longrightarrow> ix \<in> set (bbInsts (blocks s ! b)) \<Longrightarrow> ix \<in> set (allInsts s)"
  unfolding allInsts_def by (auto intro!: bexI [of _ "blocks s ! b"])

lemma allInsts_updBlock:
  assumes "ix \<in> set (allInsts (updBlock b g s))"
  shows "ix \<in> set (allInsts s) \<or> (b < length (blocks s) \<and> ix \<in> set (bbInsts (g (blocks s ! b))))"
proof (cases "b < length (blocks s)")
  case True
  from assms obtain bb where bb: "bb \<in> set ((blocks s)[b := g (blocks s ! b)])" "ix \<in> set (bbInsts bb)"
    by (auto simp: allInsts_def updBlock_def)
  from bb(1) have "bb = g (blocks s ! b) \<or> bb \<in> set (blocks s)"
    using set_update_subset_insert [of "blocks s" b "g (blocks s ! b)"] by auto
  with bb(2) True show ?thesis by (auto simp: allInsts_def)
next
  case False
  then have "length (blocks s) \<le> b" by simp
  then have "(blocks s)[b := g (blocks s ! b)] = blocks s" by (rule list_update_beyond)
  with assms show ?thesis by (simp add: allInsts_def updBlock_def)
qed

lemma updBlock_fields [simp]:
  "instCount (updBlock b g s) = instCount s"
  "functionContext (updBlock b g s) = functionContext s"
  "length (blocks (updBlock b g s)) = length (blocks s)"
  "insertionBlock (updBlock b g s) = insertionBlock s"
  by (simp_all add: updBlock_def)

text \<open>An instruction that is appended has a fresh number.\<close>

lemma insertInst_step:
  assumes "wfInsts s" and "\<forall>b \<in> set (successors i). b < length (blocks s)"
    and "insertInst i s = Inr (v, s')"
  shows "step s s' \<and> v = InstructionV (instCount s) \<and> instCount s' = Suc (instCount s) \<and>
    length (blocks s') = length (blocks s) \<and> functionContext s' = functionContext s \<and>
    (\<forall>x. (instCount s, x) \<in> set (allInsts s') \<longrightarrow> x = i)"
proof -
  from assms(3) obtain b where b: "insertionBlock s = Some b"
    and v: "v = InstructionV (instCount s)"
    and s': "s' = updBlock b (\<lambda>bb. bb\<lparr>bbInsts := bbInsts bb @ [(instCount s, i)]\<rparr>)
              (s\<lparr>instCount := Suc (instCount s)\<rparr>)"
    by (auto simp: insertInst_def getInsertionBlock_def bindR_def split: option.splits)
  let ?s1 = "s\<lparr>instCount := Suc (instCount s)\<rparr>"
  have all1: "allInsts ?s1 = allInsts s" by (simp add: allInsts_def)
  have new: "ix \<in> set (allInsts s) \<or> ix = (instCount s, i)" if "ix \<in> set (allInsts s')" for ix
  proof -
    from allInsts_updBlock [OF that [unfolded s']]
    show ?thesis
      using in_allInsts [of b ?s1 ix] by (auto simp: all1)
  qed
  have "wfInsts s'"
    unfolding wfInsts_def
  proof
    fix ix assume "ix \<in> set (allInsts s')"
    from new [OF this] assms(1,2)
    show "fst ix < instCount s' \<and> (\<forall>b \<in> set (successors (snd ix)). b < length (blocks s'))"
      by (auto simp: wfInsts_def s' less_Suc_eq)
  qed
  moreover have "fresh s s'"
    unfolding fresh_def
  proof (intro conjI ballI)
    show "instCount s \<le> instCount s'" by (simp add: s')
    fix ix assume "ix \<in> set (allInsts s')"
    from new [OF this] show "ix \<in> set (allInsts s) \<or> instCount s \<le> fst ix" by auto
  qed
  moreover have "\<forall>x. (instCount s, x) \<in> set (allInsts s') \<longrightarrow> x = i"
    using new assms(1) by (fastforce simp: wfInsts_def)
  ultimately show ?thesis
    using v by (simp add: step_def entryTerminators_def s')
qed

subsection \<open>Runs that succeed\<close>

lemma validI: "(\<And>s x s'. P s \<Longrightarrow> m s = Inr (x, s') \<Longrightarrow> Q x s') \<Longrightarrow> valid P m Q"
  by (simp add: valid_def)

lemma validD: "valid P m Q \<Longrightarrow> P s \<Longrightarrow> m s = Inr (x, s') \<Longrightarrow> Q x s'"
  by (simp add: valid_def)

lemma valid_bind:
  assumes "valid P m Q'" and "\<And>x. valid (Q' x) (f x) Q"
  shows "valid P (bindR m f) Q"
proof (rule validI)
  fix s y s'' assume "P s" and "bindR m f s = Inr (y, s'')"
  from this(2) obtain x s' where "m s = Inr (x, s')" "f x s' = Inr (y, s'')"
    by (rule bindR_InrE)
  with assms \<open>P s\<close> show "Q y s''"
    by (blast dest: validD)
qed

lemma valid_then:
  assumes "valid P m (\<lambda>_. Q')" and "valid Q' k Q"
  shows "valid P (thenR m k) Q"
  unfolding thenR_def using assms by (rule valid_bind)

lemma valid_pre: "valid P' m Q \<Longrightarrow> (\<And>s. P s \<Longrightarrow> P' s) \<Longrightarrow> valid P m Q"
  unfolding valid_def by blast

lemma valid_post: "valid P m Q' \<Longrightarrow> (\<And>x s. Q' x s \<Longrightarrow> Q x s) \<Longrightarrow> valid P m Q"
  unfolding valid_def by blast

lemma valid_ok: "(\<And>s. P s \<Longrightarrow> Q x s) \<Longrightarrow> valid P (okR x) Q"
  by (simp add: valid_def okR_def)

lemma valid_ok_same: "valid P (okR x) (\<lambda>_. P)"
  by (simp add: valid_def okR_def)

lemma valid_fail: "valid P (failR e) Q"
  by (simp add: valid_def failR_def)

lemma valid_if: "(c \<Longrightarrow> valid P a Q) \<Longrightarrow> (\<not> c \<Longrightarrow> valid P b Q) \<Longrightarrow> valid P (if c then a else b) Q"
  by simp

subsection \<open>Well-formed states\<close>

lemma wfStateD:
  assumes "wfState s"
  shows "wfInsts s"
    "\<And>b. b < length (blocks s) \<Longrightarrow> distinct (map fst (bbInsts (blocks s ! b)))"
    "\<And>b b'. b < length (blocks s) \<Longrightarrow> b' < length (blocks s) \<Longrightarrow> b \<noteq> b' \<Longrightarrow>
       blockIds s b \<inter> blockIds s b' = {}"
    "\<And>b. insertionBlock s = Some b \<Longrightarrow> b < length (blocks s)"
    "\<And>i g. (i, CreateGeneratorInst g) \<in> set (allInsts s) \<Longrightarrow> g < length (functionList s)"
  using assms unfolding wfState_def by blast+

text \<open>Well-formedness reads the blocks, the counter, the insertion block and the number of functions.\<close>

lemma wfState_cong:
  assumes "wfState s" and "blocks s' = blocks s" and "instCount s' = instCount s"
    and "insertionBlock s' = insertionBlock s"
    and "length (functionList s) \<le> length (functionList s')"
  shows "wfState s'"
proof -
  have ai: "allInsts s' = allInsts s" using assms(2) by (simp add: allInsts_def)
  have bi: "blockIds s' = blockIds s" using assms(2) by (simp add: blockIds_def fun_eq_iff)
  have "wfInsts s'"
    using wfStateD(1) [OF assms(1)] assms(2,3) by (simp add: wfInsts_def ai)
  moreover have "g < length (functionList s')" if "(i, CreateGeneratorInst g) \<in> set (allInsts s')" for i g
    using wfStateD(5) [OF assms(1), of i g] that assms(5) by (simp add: ai)
  ultimately show ?thesis
    using wfStateD(2-4) [OF assms(1)] assms(2,4)
    unfolding wfState_def bi by simp
qed

lemma frame_refl: "wfState s \<Longrightarrow> frame L LF N s s"
  by (simp add: frame_def)

lemma frame_trans:
  assumes 1: "frame L LF N z s" and 2: "frame L' LF' N' s s'" and N: "N \<le> N'"
    and L: "\<And>b. b \<in> L' \<Longrightarrow> b < length (blocks z) \<Longrightarrow> b \<in> L"
    and LF: "\<And>g. g \<in> LF' \<Longrightarrow> g < length (functionList z) \<Longrightarrow> g \<in> LF"
  shows "frame L LF N z s'"
  unfolding frame_def
proof (intro conjI allI impI)
  show "wfState s'" using 2 by (simp add: frame_def)
  show "length (blocks z) \<le> length (blocks s')"
    using 1 2 by (simp add: frame_def)
  show "length (functionList z) \<le> length (functionList s')"
    using 1 2 by (simp add: frame_def)
  show "tl (functionContext s') = tl (functionContext z)"
    using 1 2 by (simp add: frame_def)
  show "map ctxCore (functionContext s') = map ctxCore (functionContext z)"
    using 1 2 by (simp add: frame_def)
next
  fix i g assume "(i, CreateGeneratorInst g) \<in> set (allInsts s')"
  with 2 have "(i, CreateGeneratorInst g) \<in> set (allInsts s) \<or> N' \<le> g"
    by (simp add: frame_def)
  with 1 N show "(i, CreateGeneratorInst g) \<in> set (allInsts z) \<or> N \<le> g"
    unfolding frame_def by (meson le_trans)
next
  fix b assume b: "b < length (blocks z)"
  with 1 have bs: "b < length (blocks s)" by (simp add: frame_def)
  from 1 b have "bbParent (blocks s ! b) = bbParent (blocks z ! b)" by (simp add: frame_def)
  moreover from 2 bs have "bbParent (blocks s' ! b) = bbParent (blocks s ! b)" by (simp add: frame_def)
  ultimately show "bbParent (blocks s' ! b) = bbParent (blocks z ! b)" by simp
  assume nl: "b \<notin> L"
  with L b have "b \<notin> L'" by blast
  with 2 bs have "blocks s' ! b = blocks s ! b" by (simp add: frame_def)
  moreover from 1 b nl have "blocks s ! b = blocks z ! b" by (simp add: frame_def)
  ultimately show "blocks s' ! b = blocks z ! b" by simp
next
  fix g assume g: "g < length (functionList z)"
  with 1 have gs: "g < length (functionList s)" by (simp add: frame_def)
  from 1 g have "valueKind (functionList s ! g) = valueKind (functionList z ! g)"
    by (simp add: frame_def)
  moreover from 2 gs have "valueKind (functionList s' ! g) = valueKind (functionList s ! g)"
    by (simp add: frame_def)
  ultimately show "valueKind (functionList s' ! g) = valueKind (functionList z ! g)" by simp
  assume nl: "g \<notin> LF"
  with LF g have "g \<notin> LF'" by blast
  with 2 gs have "functionList s' ! g = functionList s ! g" by (simp add: frame_def)
  moreover from 1 g nl have "functionList s ! g = functionList z ! g" by (simp add: frame_def)
  ultimately show "functionList s' ! g = functionList z ! g" by simp
qed

lemma frame_mono:
  assumes "frame L LF N z s" and "L \<subseteq> L'" and "LF \<subseteq> LF'" and "N' \<le> N"
  shows "frame L' LF' N' z s"
proof -
  have "(i, CreateGeneratorInst g) \<in> set (allInsts z) \<or> N' \<le> g"
    if "(i, CreateGeneratorInst g) \<in> set (allInsts s)" for i g
  proof -
    from assms(1) that have "(i, CreateGeneratorInst g) \<in> set (allInsts z) \<or> N \<le> g"
      unfolding frame_def by blast
    with assms(4) show ?thesis by auto
  qed
  moreover have "blocks s ! b = blocks z ! b" if "b < length (blocks z)" "b \<notin> L'" for b
    using assms(1,2) that unfolding frame_def by blast
  moreover have "functionList s ! g = functionList z ! g"
    if "g < length (functionList z)" "g \<notin> LF'" for g
    using assms(1,3) that unfolding frame_def by blast
  ultimately show ?thesis
    using assms(1) unfolding frame_def by simp
qed

lemma frameD:
  assumes "frame L LF N z s"
  shows "wfState s"
    "length (blocks z) \<le> length (blocks s)"
    "length (functionList z) \<le> length (functionList s)"
    "tl (functionContext s) = tl (functionContext z)"
    "map ctxCore (functionContext s) = map ctxCore (functionContext z)"
    "\<And>b. b < length (blocks z) \<Longrightarrow> bbParent (blocks s ! b) = bbParent (blocks z ! b)"
    "\<And>b. b < length (blocks z) \<Longrightarrow> b \<notin> L \<Longrightarrow> blocks s ! b = blocks z ! b"
    "\<And>g. g < length (functionList z) \<Longrightarrow> valueKind (functionList s ! g) = valueKind (functionList z ! g)"
    "\<And>g. g < length (functionList z) \<Longrightarrow> g \<notin> LF \<Longrightarrow> functionList s ! g = functionList z ! g"
    "\<And>i g. (i, CreateGeneratorInst g) \<in> set (allInsts s) \<Longrightarrow>
       (i, CreateGeneratorInst g) \<in> set (allInsts z) \<or> N \<le> g"
  using assms unfolding frame_def by blast+

lemma ext_refl: "wfState s \<Longrightarrow> ext LF s s"
  by (simp add: ext_def frame_refl)

lemma ext_trans:
  assumes "ext LF s s1" and "ext LF s1 s2"
  shows "ext LF s s2"
proof -
  from assms have ins: "insertionBlock s1 = insertionBlock s"
    and f1: "frame (set_option (insertionBlock s)) LF (length (functionList s)) s s1"
    and f2: "frame (set_option (insertionBlock s)) LF (length (functionList s1)) s1 s2"
    by (simp_all add: ext_def)
  from frameD(3) [OF f1] have "length (functionList s) \<le> length (functionList s1)" .
  from frame_trans [OF f1 f2 this] assms show ?thesis
    by (simp add: ext_def)
qed

lemma ext_mono: "ext LF s s' \<Longrightarrow> LF \<subseteq> LF' \<Longrightarrow> ext LF' s s'"
  unfolding ext_def by (auto intro: frame_mono)

lemma ext_wf: "ext LF s s' \<Longrightarrow> wfState s'"
  by (simp add: ext_def frame_def)

subsection \<open>Runs that keep the frame\<close>

lemma keepsI: "(\<And>s x s'. wfState s \<Longrightarrow> m s = Inr (x, s') \<Longrightarrow> ext LF s s') \<Longrightarrow> keeps LF m"
  by (simp add: keeps_def)

lemma keepsD: "keeps LF m \<Longrightarrow> wfState s \<Longrightarrow> m s = Inr (x, s') \<Longrightarrow> ext LF s s'"
  by (simp add: keeps_def)

lemma keeps_mono: "keeps LF m \<Longrightarrow> LF \<subseteq> LF' \<Longrightarrow> keeps LF' m"
  unfolding keeps_def by (blast intro: ext_mono)

lemma keeps_bind:
  assumes "keeps LF m" and "\<And>x. keeps LF (f x)"
  shows "keeps LF (bindR m f)"
proof (rule keepsI)
  fix s y s'' assume wf: "wfState s" and "bindR m f s = Inr (y, s'')"
  from this(2) obtain x s' where r: "m s = Inr (x, s')" "f x s' = Inr (y, s'')"
    by (rule bindR_InrE)
  from keepsD [OF assms(1) wf r(1)] have e1: "ext LF s s'" .
  from keepsD [OF assms(2) ext_wf [OF e1] r(2)] have "ext LF s' s''" .
  with e1 show "ext LF s s''" by (rule ext_trans)
qed

lemma keeps_then: "keeps LF m \<Longrightarrow> keeps LF k \<Longrightarrow> keeps LF (thenR m k)"
  unfolding thenR_def by (rule keeps_bind)

lemma keeps_ok: "keeps LF (okR x)"
  by (rule keepsI) (simp add: okR_def ext_refl)

lemma keeps_fail: "keeps LF (failR e)"
  by (rule keepsI) (simp add: failR_def)

lemma keeps_if: "(c \<Longrightarrow> keeps LF a) \<Longrightarrow> (\<not> c \<Longrightarrow> keeps LF b) \<Longrightarrow> keeps LF (if c then a else b)"
  by simp

text \<open>A run that leaves alone what the frame speaks about.\<close>

lemma ext_same:
  assumes "wfState s" and "blocks s' = blocks s" and "instCount s' = instCount s"
    and "insertionBlock s' = insertionBlock s" and "functionList s' = functionList s"
    and "tl (functionContext s') = tl (functionContext s)"
    and "map ctxCore (functionContext s') = map ctxCore (functionContext s)"
    and "map entryTerminator (functionContext s') = map entryTerminator (functionContext s)"
  shows "ext LF s s'"
proof -
  have "wfState s'"
    using assms(1-5) by (intro wfState_cong [of s s']) simp_all
  then show ?thesis
    using assms(2-8) by (simp add: ext_def frame_def entryTerminators_def allInsts_def)
qed

lemma keeps_same:
  assumes "\<And>s x s'. m s = Inr (x, s') \<Longrightarrow>
      blocks s' = blocks s \<and> instCount s' = instCount s \<and>
      insertionBlock s' = insertionBlock s \<and> functionList s' = functionList s \<and>
      tl (functionContext s') = tl (functionContext s) \<and>
      map ctxCore (functionContext s') = map ctxCore (functionContext s) \<and>
      map entryTerminator (functionContext s') = map entryTerminator (functionContext s)"
  shows "keeps LF m"
proof (rule keepsI)
  fix s x s' assume "wfState s" and "m s = Inr (x, s')"
  with assms [of s x s'] show "ext LF s s'"
    by (intro ext_same) simp_all
qed

named_theorems keeps_intros

lemmas [keeps_intros] = keeps_bind keeps_then keeps_ok keeps_if keeps_fail

lemma keeps_prims [keeps_intros]:
  "keeps LF saveCurrentScope"
  "keeps LF (createVariable f n)"
  "keeps LF (setLocation l)"
  "keeps LF getFunction"
  "keeps LF (getThisParameter f)"
  "keeps LF (getFunctionRec f)"
  "keeps LF (lookupName n)"
  "keeps LF (insertName n v)"
  "keeps LF (insertIntoScope sc n v)"
  "keeps LF pushScope"
  "keeps LF popScope"
  "keeps LF (getNameFieldFromID idn)"
  "keeps LF curFunction"
  "keeps LF getPreviousContext"
  "keeps LF (createGlobalObjectProperty n d)"
  by (rule keeps_same;
      auto simp: monad_defs builder_defs saveCurrentScope_def lookupName_def insertName_def
        insertIntoScope_def pushScope_def popScope_def getNameFieldFromID_def
        curFunction_def getPreviousContext_def Let_def
      split: option.splits list.splits if_splits sum.splits)+

lemma keeps_updCur [keeps_intros]:
  assumes "\<And>c. ctxCore (g c) = ctxCore c" and "\<And>c. entryTerminator (g c) = entryTerminator c"
  shows "keeps LF (updCurFunction g)"
  by (rule keeps_same) (auto simp: updCurFunction_def assms split: list.splits)

lemma keeps_anon [keeps_intros]: "keeps LF (genAnonymousLabelName hint)"
  unfolding genAnonymousLabelName_def
  by (intro keeps_intros) (simp_all add: ctxCore_def)


subsection \<open>The builder keeps the frame\<close>

lemma keeps_makeFunction: "keeps LF (makeFunction n dk vk st rg gl)"
proof (rule keepsI)
  fix s x s' assume wf: "wfState s" and "makeFunction n dk vk st rg gl s = Inr (x, s')"
  then obtain fn where s': "s' = s\<lparr>functionList := functionList s @ [fn]\<rparr>"
    by (auto simp: makeFunction_def)
  have "wfState s'"
    using wf by (rule wfState_cong) (simp_all add: s')
  then show "ext LF s s'"
    by (simp add: ext_def frame_def entryTerminators_def allInsts_def s' nth_append)
qed

lemma keeps_create [keeps_intros]:
  "keeps LF (createFunction n dk st rg gl)"
  "keeps LF (createGeneratorFunction n dk st)"
  "keeps LF (createGeneratorInnerFunction n dk st rg)"
  unfolding createFunction_def createGeneratorFunction_def createGeneratorInnerFunction_def
  by (rule keeps_makeFunction)+

lemma nth_update_if: "j < length xs \<Longrightarrow> xs[i := y] ! j = (if j = i then y else xs ! j)"
  by auto

lemma updBlock_functionList [simp]: "functionList (updBlock b g s) = functionList s"
  by (simp add: updBlock_def)

lemma ext_updFunction:
  assumes "wfState s" and "\<And>fn. valueKind (g fn) = valueKind fn" and "f \<in> LF"
  shows "ext LF s (updFunction f g s)"
proof -
  have "wfState (updFunction f g s)"
    using assms(1) by (rule wfState_cong) (simp_all add: updFunction_def)
  then show ?thesis
    using assms(2,3)
    by (simp add: ext_def frame_def entryTerminators_def allInsts_def updFunction_def
        nth_update_if)
qed

lemma keeps_updFunction [keeps_intros]:
  assumes "\<And>fn. valueKind (g fn) = valueKind fn" and "f \<in> LF"
  shows "keeps LF (modifyR (updFunction f g))"
  by (rule keepsI) (auto simp: modifyR_def intro: ext_updFunction assms)

lemma keeps_createParameter [keeps_intros]: "f \<in> LF \<Longrightarrow> keeps LF (createParameter f n)"
  by (rule keepsI) (auto simp: createParameter_def intro: ext_updFunction)

lemma updBlock_nth:
  "b' < length (blocks s) \<Longrightarrow>
   blocks (updBlock b g s) ! b' = (if b' = b then g (blocks s ! b) else blocks s ! b')"
  by (simp add: updBlock_def)

lemma in_allInsts_iff:
  "x \<in> set (allInsts s) \<longleftrightarrow> (\<exists>b<length (blocks s). x \<in> set (bbInsts (blocks s ! b)))"
proof
  assume "x \<in> set (allInsts s)"
  then obtain bb where "bb \<in> set (blocks s)" "x \<in> set (bbInsts bb)"
    unfolding allInsts_def by auto
  then show "\<exists>b<length (blocks s). x \<in> set (bbInsts (blocks s ! b))"
    by (metis in_set_conv_nth)
next
  assume "\<exists>b<length (blocks s). x \<in> set (bbInsts (blocks s ! b))"
  then show "x \<in> set (allInsts s)"
    by (auto intro: in_allInsts)
qed

lemma wfInsts_id:
  "wfInsts s \<Longrightarrow> b < length (blocks s) \<Longrightarrow> i \<in> blockIds s b \<Longrightarrow> i < instCount s"
  unfolding wfInsts_def blockIds_def by (auto dest: in_allInsts)

text \<open>A new block.\<close>

lemma ext_createBasicBlock:
  assumes wf: "wfState s" and f: "f \<in> LF"
    and run: "createBasicBlock f s = Inr (b, s')"
  shows "ext LF s s'" and "b = length (blocks s)" and "length (blocks s') = Suc (length (blocks s))"
    and "blocks s' ! b = \<lparr>bbParent = f, bbInsts = []\<rparr>"
    and "functionContext s' = functionContext s" and "insertionBlock s' = insertionBlock s"
    and "frame {} LF (length (functionList s)) s s'"
proof -
  let ?s1 = "s\<lparr>blocks := blocks s @ [\<lparr>bbParent = f, bbInsts = []\<rparr>]\<rparr>"
  from run have b: "b = length (blocks s)"
    and s': "s' = updFunction f (\<lambda>fn. fn\<lparr>basicBlocks := basicBlocks fn @ [length (blocks s)]\<rparr>) ?s1"
    by (auto simp: createBasicBlock_def)
  have ai: "allInsts ?s1 = allInsts s" by (simp add: allInsts_def)
  have ids: "blockIds ?s1 b' = (if b' < length (blocks s) then blockIds s b' else {})"
    if "b' < Suc (length (blocks s))" for b'
    using that by (auto simp: blockIds_def nth_append less_Suc_eq)
  have "wfInsts ?s1"
    using wfStateD(1) [OF wf] by (auto simp: wfInsts_def ai intro: less_SucI)
  moreover have "distinct (map fst (bbInsts (blocks ?s1 ! b')))" if "b' < Suc (length (blocks s))" for b'
    using that wfStateD(2) [OF wf, of b'] by (cases "b' < length (blocks s)") (auto simp: nth_append less_Suc_eq)
  moreover have "blockIds ?s1 b1 \<inter> blockIds ?s1 b2 = {}"
    if "b1 < Suc (length (blocks s))" "b2 < Suc (length (blocks s))" "b1 \<noteq> b2" for b1 b2
    using that wfStateD(3) [OF wf, of b1 b2] by (simp add: ids)
  moreover have "b' < Suc (length (blocks s))" if "insertionBlock s = Some b'" for b'
    using wfStateD(4) [OF wf that] by simp
  moreover have "g < length (functionList s)" if "(i, CreateGeneratorInst g) \<in> set (allInsts ?s1)" for i g
    using wfStateD(5) [OF wf, of i g] that by (simp add: ai)
  ultimately have wf1: "wfState ?s1"
    unfolding wfState_def by simp
  have e1: "ext LF s ?s1"
    using wf1 by (simp add: ext_def frame_def entryTerminators_def ai nth_append)
  have e2: "ext LF ?s1 s'"
    unfolding s' by (rule ext_updFunction [OF wf1 _ f]) simp
  with e1 show "ext LF s s'" by (rule ext_trans)
  have "frame {} LF (length (functionList s)) s ?s1"
    using wf1 by (simp add: frame_def ai nth_append)
  moreover have "frame {} LF (length (functionList ?s1)) ?s1 s'"
    using ext_wf [OF e2] f
    by (simp add: frame_def s' updFunction_def allInsts_def nth_update_if)
  ultimately show "frame {} LF (length (functionList s)) s s'"
    by (rule frame_trans) simp_all
  show "b = length (blocks s)" by fact
  show "length (blocks s') = Suc (length (blocks s))" "functionContext s' = functionContext s"
    "insertionBlock s' = insertionBlock s"
    by (simp_all add: s' updFunction_def)
  show "blocks s' ! b = \<lparr>bbParent = f, bbInsts = []\<rparr>"
    by (simp add: s' b updFunction_def)
qed

lemma keeps_createBasicBlock [keeps_intros]: "f \<in> LF \<Longrightarrow> keeps LF (createBasicBlock f)"
  by (rule keepsI) (rule ext_createBasicBlock)

text \<open>A new instruction.\<close>

lemma insertInst_frame:
  assumes wf: "wfState s" and run: "insertInst i s = Inr (v, s')"
    and succ: "\<forall>nb \<in> set (successors i). nb < length (blocks s)"
    and gen: "\<forall>g. i = CreateGeneratorInst g \<longrightarrow> N \<le> g \<and> g < length (functionList s)"
  shows "frame (set_option (insertionBlock s)) LF N s s'"
    and "insertionBlock s' = insertionBlock s" and "functionContext s' = functionContext s"
    and "functionList s' = functionList s"
    and "v = InstructionV (instCount s)" and "instCount s' = Suc (instCount s)"
    and "length (blocks s') = length (blocks s)"
    and "\<exists>b. insertionBlock s = Some b \<and> b < length (blocks s) \<and>
           blocks s' ! b = (blocks s ! b)\<lparr>bbInsts := bbInsts (blocks s ! b) @ [(instCount s, i)]\<rparr>"
proof -
  from run obtain b where b: "insertionBlock s = Some b"
    and v: "v = InstructionV (instCount s)"
    and s': "s' = updBlock b (\<lambda>bb. bb\<lparr>bbInsts := bbInsts bb @ [(instCount s, i)]\<rparr>)
              (s\<lparr>instCount := Suc (instCount s)\<rparr>)"
    by (auto simp: insertInst_def getInsertionBlock_def bindR_def split: option.splits)
  from wfStateD(4) [OF wf b] have bl: "b < length (blocks s)" .
  have nth: "blocks s' ! b' = (if b' = b then (blocks s ! b)\<lparr>bbInsts := bbInsts (blocks s ! b) @ [(instCount s, i)]\<rparr>
      else blocks s ! b')" if "b' < length (blocks s)" for b'
    using that by (simp add: s' updBlock_def)
  have len: "length (blocks s') = length (blocks s)" by (simp add: s')
  have ids: "blockIds s' b' = (if b' = b then insert (instCount s) (blockIds s b) else blockIds s b')"
    if "b' < length (blocks s)" for b'
    using that by (auto simp: blockIds_def nth)
  have old: "k < instCount s" if "k \<in> blockIds s b'" "b' < length (blocks s)" for k b'
    using wfInsts_id [OF wfStateD(1) [OF wf] that(2,1)] .
  from insertInst_step [OF wfStateD(1) [OF wf] succ run] have "step s s'" by simp
  then have wi: "wfInsts s'" and et: "entryTerminators s' = entryTerminators s"
    by (simp_all add: step_def)
  have new: "ix \<in> set (allInsts s) \<or> ix = (instCount s, i)" if "ix \<in> set (allInsts s')" for ix
  proof -
    from that obtain b' where "b' < length (blocks s)" "ix \<in> set (bbInsts (blocks s' ! b'))"
      unfolding in_allInsts_iff len by blast
    then show ?thesis
      using in_allInsts [of b' s ix] by (auto simp: nth split: if_splits)
  qed
  have d: "distinct (map fst (bbInsts (blocks s' ! b')))" if "b' < length (blocks s)" for b'
  proof (cases "b' = b")
    case True
    have "instCount s \<notin> blockIds s b" using old [of "instCount s" b] bl by auto
    then show ?thesis
      using wfStateD(2) [OF wf bl] True bl by (simp add: nth blockIds_def)
  next
    case False
    then show ?thesis using wfStateD(2) [OF wf that] that by (simp add: nth)
  qed
  have dj: "blockIds s' b1 \<inter> blockIds s' b2 = {}"
    if "b1 < length (blocks s)" "b2 < length (blocks s)" "b1 \<noteq> b2" for b1 b2
  proof -
    have "instCount s \<notin> blockIds s b1" "instCount s \<notin> blockIds s b2"
      using old [of "instCount s" b1] old [of "instCount s" b2] that by auto
    then show ?thesis
      using wfStateD(3) [OF wf that] that by (auto simp: ids)
  qed
  have g4: "g < length (functionList s')" if "(k, CreateGeneratorInst g) \<in> set (allInsts s')" for k g
    using new [OF that] wfStateD(5) [OF wf, of k g] gen by (auto simp: s' updBlock_def)
  have wf': "wfState s'"
    unfolding wfState_def len
    using wi d dj g4 b bl by (simp add: s')
  have g2: "(k, CreateGeneratorInst g) \<in> set (allInsts s) \<or> N \<le> g"
    if "(k, CreateGeneratorInst g) \<in> set (allInsts s')" for k g
    using new [OF that] gen by auto
  show "frame (set_option (insertionBlock s)) LF N s s'"
    unfolding frame_def
    using wf' g2 by (simp add: len nth b) (simp add: s')
  show "insertionBlock s' = insertionBlock s" "functionContext s' = functionContext s"
    "functionList s' = functionList s" "instCount s' = Suc (instCount s)"
    by (simp_all add: s' updBlock_def)
  show "v = InstructionV (instCount s)" by fact
  show "length (blocks s') = length (blocks s)" by fact
  show "\<exists>b. insertionBlock s = Some b \<and> b < length (blocks s) \<and>
      blocks s' ! b = (blocks s ! b)\<lparr>bbInsts := bbInsts (blocks s ! b) @ [(instCount s, i)]\<rparr>"
    using b bl by (simp add: nth)
qed

lemma keeps_insertInst [keeps_intros]:
  assumes "successors i = []" and "\<And>g. i \<noteq> CreateGeneratorInst g"
  shows "keeps LF (insertInst i)"
proof (rule keepsI)
  fix s v s' assume wf: "wfState s" and run: "insertInst i s = Inr (v, s')"
  have "\<forall>nb \<in> set (successors i). nb < length (blocks s)"
    "\<forall>g. i = CreateGeneratorInst g \<longrightarrow> length (functionList s) \<le> g \<and> g < length (functionList s)"
    using assms by simp_all
  from insertInst_frame(1-3) [OF wf run this] show "ext LF s s'"
    by (simp add: ext_def entryTerminators_def)
qed

lemma keeps_extern [keeps_intros]:
  "keeps LF (emitStore v p)"
  "keeps LF (emitLoad v)"
  "keeps LF (genHermesInternalCall n v vs)"
  "keeps LF (lrefEmitStore t v)"
  "keeps LF (emitOptionalInitialization v i)"
  unfolding emitStore_def emitLoad_def genHermesInternalCall_def
    lrefEmitStore_def emitOptionalInitialization_def
  by (auto intro!: keeps_intros split: Value.splits option.splits)

lemma keeps_declare [keeps_intros]: "keeps LF (declareVariableOrGlobalProperty f n)"
  by (rule keeps_same)
    (auto simp: declareVariableOrGlobalProperty_def monad_defs builder_defs lookupName_def
      insertName_def Let_def
      split: option.splits list.splits if_splits sum.splits Value.splits)

lemma keeps_lazyParams [keeps_intros]: "f \<in> LF \<Longrightarrow> keeps LF (lazyParams f ps)"
  by (induction ps) (auto intro!: keeps_intros split: Node.splits)

lemma keeps_hoist [keeps_intros]: "keeps LF (hoistVarDecls f ns)"
  by (induction ns) (auto intro!: keeps_intros split: Value.splits)

lemma keeps_declareClosures [keeps_intros]: "keeps LF (declareClosures f cs)"
  by (induction cs) (auto intro!: keeps_intros)

lemma keeps_declareParamNames [keeps_intros]: "keeps LF (declareParamNames f ns)"
  by (induction ns) (auto intro!: keeps_intros)

lemma keeps_emitFormal [keeps_intros]: "f \<in> LF \<Longrightarrow> keeps LF (emitFormal f elem)"
  unfolding emitFormal_def
  by (auto intro!: keeps_intros simp: Let_def split: Node.splits prod.splits)

lemma keeps_emitParamLoop [keeps_intros]: "f \<in> LF \<Longrightarrow> keeps LF (emitParamLoop f ps idx)"
  by (induction ps arbitrary: idx) (auto intro!: keeps_intros simp: Let_def split: Node.splits)

lemma keeps_initCapture [keeps_intros]: "keeps LF initCaptureStateInES5Function"
  unfolding initCaptureStateInES5Function_def
  by (auto intro!: keeps_intros simp: Let_def ctxCore_def split: option.splits)

subsection \<open>Phases of the lowering of one function\<close>

lemma ext_curIs: "ext LF s s' \<Longrightarrow> curIs F s \<Longrightarrow> curIs F s'"
  unfolding ext_def frame_def curIs_def
  by (auto simp: map_eq_Cons_conv Cons_eq_map_conv ctxCore_def)

lemma frame_curIs: "frame L LF N s s' \<Longrightarrow> curIs F s \<Longrightarrow> curIs F s'"
  unfolding frame_def curIs_def
  by (auto simp: map_eq_Cons_conv Cons_eq_map_conv ctxCore_def)

lemma phaseD_step:
  assumes "phaseD z L F N s" and "frame L' LF' (length (functionList s)) s s'"
    and "\<And>b. b \<in> L' \<Longrightarrow> b < length (blocks z) \<Longrightarrow> b \<in> L" and "LF' \<subseteq> {F}"
  shows "phaseD z L F N s'"
proof -
  from assms(1) have f: "frame L {F} N z s" and c: "curIs F s" and N: "N \<le> length (functionList z)"
    by (simp_all add: phaseD_def)
  from frameD(3) [OF f] N have "N \<le> length (functionList s)" by simp
  from frame_trans [OF f assms(2) this assms(3)] assms(4)
  have "frame L {F} N z s'" by blast
  with frame_curIs [OF assms(2) c] N show ?thesis
    by (simp add: phaseD_def)
qed

lemma phaseE_step:
  assumes "phaseE z L F N e s" and "frame L' LF' (length (functionList s)) s s'"
    and "\<And>b. b \<in> L' \<Longrightarrow> b < length (blocks z) \<Longrightarrow> b \<in> L" and "LF' \<subseteq> {F}"
  shows "phaseE z L F N e s'"
proof -
  from assms(1) have d: "phaseD z L F N s" and e: "e < length (blocks s)"
    "e \<in> L \<or> length (blocks z) \<le> e" "bbParent (blocks s ! e) = F"
    by (simp_all add: phaseE_def)
  from frameD(2,6) [OF assms(2)] e(1,3)
  have "e < length (blocks s')" "bbParent (blocks s' ! e) = F" by auto
  with phaseD_step [OF d assms(2-4)] e(2) show ?thesis
    by (simp add: phaseE_def)
qed

lemma keeps_phaseP:
  assumes "keeps LF' m" and "LF' \<subseteq> {F}"
  shows "valid (phaseP z L F N e) m (\<lambda>_. phaseP z L F N e)"
proof (rule validI)
  fix s x s' assume p: "phaseP z L F N e s" and run: "m s = Inr (x, s')"
  then have pe: "phaseE z L F N e s" and ins: "insertionBlock s = Some e"
    by (simp_all add: phaseP_def)
  then have wf: "wfState s" and el: "e \<in> L \<or> length (blocks z) \<le> e"
    by (simp_all add: phaseE_def phaseD_def frame_def)
  from keepsD [OF assms(1) wf run]
  have fr: "frame {e} LF' (length (functionList s)) s s'" and ins': "insertionBlock s' = Some e"
    by (simp_all add: ext_def ins)
  have "phaseE z L F N e s'"
    using pe fr _ assms(2) by (rule phaseE_step) (use el in auto)
  with ins' show "phaseP z L F N e s'" by (simp add: phaseP_def)
qed

lemma frame_atTerminator:
  assumes fr: "frame {nb} LF N' s s'" and ins: "insertionBlock s' = Some nb"
    and et: "entryTerminators s' = entryTerminators s" and "atTerminator F t eb nb s"
  shows "atTerminator F t eb nb s'"
proof -
  from assms(4) obtain c cs pre where k: "functionContext s = c # cs" "ctxFunction c = F"
    "entryTerminator c = Some t" "eb < length (blocks s)" "nb < length (blocks s)" "eb \<noteq> nb"
    "bbInsts (blocks s ! eb) = pre @ [(t, BranchInst nb)]" "insertionBlock s = Some nb"
    "bbParent (blocks s ! nb) = F" "bbParent (blocks s ! eb) = F"
    unfolding atTerminator_def by blast
  from frameD(5) [OF fr] et k(1,2,3)
  obtain c' cs' where c': "functionContext s' = c' # cs'" "ctxFunction c' = F"
    "entryTerminator c' = Some t"
    by (auto simp: entryTerminators_def map_eq_Cons_conv Cons_eq_map_conv ctxCore_def)
  have "blocks s' ! eb = blocks s ! eb"
    using frameD(7) [OF fr k(4)] k(6) by simp
  moreover have "bbParent (blocks s' ! nb) = F"
    using frameD(6) [OF fr k(5)] k(9) by simp
  moreover have "eb < length (blocks s')" "nb < length (blocks s')"
    using frameD(2) [OF fr] k(4,5) by simp_all
  ultimately show ?thesis
    unfolding atTerminator_def using c' k(6,7,10) ins by auto
qed

lemma ext_atTerminator:
  assumes "ext LF s s'" and "atTerminator F t eb nb s"
  shows "atTerminator F t eb nb s'"
proof -
  from assms(2) have "insertionBlock s = Some nb" unfolding atTerminator_def by blast
  with assms(1) have "frame {nb} LF (length (functionList s)) s s'"
    "insertionBlock s' = Some nb" "entryTerminators s' = entryTerminators s"
    by (simp_all add: ext_def)
  then show ?thesis using assms(2) by (rule frame_atTerminator)
qed

lemma keeps_phaseK:
  assumes "keeps LF' m" and "LF' \<subseteq> {F}"
  shows "valid (phaseK z L F N eb) m (\<lambda>_. phaseK z L F N eb)"
proof (rule validI)
  fix s x s' assume p: "phaseK z L F N eb s" and run: "m s = Inr (x, s')"
  then obtain t nb where f: "frame L {F} N z s" and N: "N \<le> length (functionList z)"
    and el: "eb \<in> L \<or> length (blocks z) \<le> eb" and nbn: "length (blocks z) \<le> nb"
    and k: "atTerminator F t eb nb s"
    unfolding phaseK_def by blast
  from f have wf: "wfState s" by (simp add: frame_def)
  from k have ins: "insertionBlock s = Some nb" unfolding atTerminator_def by blast
  from keepsD [OF assms(1) wf run] have e: "ext LF' s s'" .
  then have fr: "frame {nb} LF' (length (functionList s)) s s'"
    by (simp add: ext_def ins)
  from frameD(3) [OF f] N have "N \<le> length (functionList s)" by simp
  from frame_trans [OF f fr this] nbn assms(2)
  have "frame L {F} N z s'" by fastforce
  with ext_atTerminator [OF e k] N el nbn show "phaseK z L F N eb s'"
    unfolding phaseK_def by blast
qed

lemma createBasicBlock_phaseD:
  "valid (phaseD z L F N) (createBasicBlock F) (\<lambda>b. phaseE z L F N b)"
proof (rule validI)
  fix s b s' assume p: "phaseD z L F N s" and run: "createBasicBlock F s = Inr (b, s')"
  then have wf: "wfState s" by (simp add: phaseD_def frame_def)
  have F: "F \<in> {F}" by simp
  note r = ext_createBasicBlock [OF wf F run]
  from p have "length (blocks z) \<le> length (blocks s)" by (simp add: phaseD_def frame_def)
  with phaseD_step [OF p r(7)] r(2,3,4) show "phaseE z L F N b s'"
    by (simp add: phaseE_def)
qed

lemma createBasicBlock_phaseP:
  "valid (phaseP z L F N e) (createBasicBlock F) (\<lambda>b s. phaseP z L F N e s \<and> phaseE z L F N b s)"
proof (rule validI)
  fix s b s' assume p: "phaseP z L F N e s" and run: "createBasicBlock F s = Inr (b, s')"
  then have d: "phaseD z L F N s" by (simp add: phaseP_def phaseE_def)
  have k: "keeps {F} (createBasicBlock F)" by (rule keeps_createBasicBlock) simp
  from validD [OF keeps_phaseP [OF k] p run] validD [OF createBasicBlock_phaseD d run]
  show "phaseP z L F N e s' \<and> phaseE z L F N b s'" by simp
qed

lemma setInsertionBlock_phaseE:
  "valid (phaseE z L F N e) (setInsertionBlock e) (\<lambda>_. phaseP z L F N e)"
proof (rule validI)
  fix s x s' assume p: "phaseE z L F N e s" and run: "setInsertionBlock e s = Inr (x, s')"
  then have s': "s' = s\<lparr>insertionBlock := Some e\<rparr>"
    by (simp add: setInsertionBlock_def modifyR_def)
  from p have wf: "wfState s" and e: "e < length (blocks s)"
    by (simp_all add: phaseE_def phaseD_def frame_def)
  have "wfState s'"
    using wf e unfolding wfState_def wfInsts_def allInsts_def blockIds_def s' by simp
  then have "frame {} {} (length (functionList s)) s s'"
    by (simp add: frame_def s' allInsts_def)
  from phaseE_step [OF p this] show "phaseP z L F N e s'"
    by (simp add: phaseP_def s')
qed


lemma frame_fields:
  assumes "wfState s" and "b < length (blocks s)"
  shows "frame {} {} (length (functionList s)) s (s\<lparr>location := l\<rparr>)"
    and "wfState (s\<lparr>insertionBlock := Some b\<rparr>)"
proof -
  have "wfState (s\<lparr>location := l\<rparr>)"
    using assms(1) by (rule wfState_cong) simp_all
  then show "frame {} {} (length (functionList s)) s (s\<lparr>location := l\<rparr>)"
    by (simp add: frame_def allInsts_def)
  show "wfState (s\<lparr>insertionBlock := Some b\<rparr>)"
    using assms unfolding wfState_def wfInsts_def allInsts_def blockIds_def by simp
qed

lemma resume_phase:
  "valid (\<lambda>s. phaseP z L F N e s \<and> phaseE z L F N b s) (genResumeGenerator v b)
     (\<lambda>_. phaseE z L F N b)"
proof (rule validI)
  fix s x s' assume "phaseP z L F N e s \<and> phaseE z L F N b s"
    and run: "genResumeGenerator v b s = Inr (x, s')"
  then have p: "phaseP z L F N e s" and pb: "phaseE z L F N b s" by simp_all
  then have wf: "wfState s" and ins: "insertionBlock s = Some e"
    and el: "e \<in> L \<or> length (blocks z) \<le> e" and bl: "b < length (blocks s)"
    by (simp_all add: phaseP_def phaseE_def phaseD_def frame_def)
  from run obtain r s1 where i: "insertInst (ResumeGeneratorInst v b) s = Inr (r, s1)"
    and s': "s' = s1\<lparr>insertionBlock := Some b\<rparr>"
    unfolding genResumeGenerator_def
    by (auto elim!: bindR_InrE thenR_InrE simp: setInsertionBlock_def modifyR_def okR_def)
  have succ: "\<forall>nb \<in> set (successors (ResumeGeneratorInst v b)). nb < length (blocks s)"
    using bl by simp
  have gen: "\<forall>g. ResumeGeneratorInst v b = CreateGeneratorInst g \<longrightarrow>
      length (functionList s) \<le> g \<and> g < length (functionList s)" by simp
  from insertInst_frame(1) [OF wf i succ gen, of "{}"]
  have fr: "frame {e} {} (length (functionList s)) s s1" by (simp add: ins)
  have pb1: "phaseE z L F N b s1"
    using pb fr by (rule phaseE_step) (use el in auto)
  then have "phaseP z L F N b (s1\<lparr>insertionBlock := Some b\<rparr>)"
    using validD [OF setInsertionBlock_phaseE pb1, of "()" "s1\<lparr>insertionBlock := Some b\<rparr>"]
    by (simp add: setInsertionBlock_def modifyR_def)
  then show "phaseE z L F N b s'" by (simp add: phaseP_def s')
qed

lemma prologue_start:
  assumes "\<And>c si fn. ctxFunction c = F \<Longrightarrow> valid (phaseP z L F N entry) (k c si fn) Q"
  shows "valid (phaseE z L F N entry)
     (bindR curFunction (\<lambda>c.
      bindR (case ctxSemInfo c of
               None \<Rightarrow> failR (NullDereference ''getSemInfo'')
             | Some si \<Rightarrow> okR si) (\<lambda>si.
      bindR (getFunctionRec (ctxFunction c)) (\<lambda>fn.
      thenR (setLocation (fst (fnSourceRange fn)))
     (thenR (setInsertionBlock entry) (k c si fn)))))) Q"
proof (rule validI)
  fix s x s' assume p: "phaseE z L F N entry s"
    and run: "bindR curFunction (\<lambda>c.
      bindR (case ctxSemInfo c of
               None \<Rightarrow> failR (NullDereference ''getSemInfo'')
             | Some si \<Rightarrow> okR si) (\<lambda>si.
      bindR (getFunctionRec (ctxFunction c)) (\<lambda>fn.
      thenR (setLocation (fst (fnSourceRange fn)))
     (thenR (setInsertionBlock entry) (k c si fn))))) s = Inr (x, s')"
  from p have wf: "wfState s" and el: "entry < length (blocks s)"
    by (simp_all add: phaseE_def phaseD_def frame_def)
  from p obtain c cs where stack: "functionContext s = c # cs" "ctxFunction c = F"
    by (auto simp: phaseE_def phaseD_def curIs_def)
  from run stack obtain si fn l where
    rest: "k c si fn (s\<lparr>location := l, insertionBlock := Some entry\<rparr>) = Inr (x, s')"
    by (auto simp: bindR_def thenR_def curFunction_def okR_def failR_def getFunctionRec_def
        setLocation_def setInsertionBlock_def modifyR_def split: option.splits)
  have "phaseE z L F N entry (s\<lparr>location := l\<rparr>)"
    using p frame_fields(1) [OF wf el] by (rule phaseE_step) simp_all
  from validD [OF setInsertionBlock_phaseE this, of "()" "s\<lparr>location := l, insertionBlock := Some entry\<rparr>"]
  have "phaseP z L F N entry (s\<lparr>location := l, insertionBlock := Some entry\<rparr>)"
    by (simp add: setInsertionBlock_def modifyR_def)
  from validD [OF assms [OF stack(2)] this rest] show "Q x s'" .
qed

lemma prologue_tail_phase:
  assumes F: "f = F"
  shows "valid (phaseP z L F N entry)
     (bindR (createBasicBlock f) (\<lambda>nextBlock.
      bindR (insertInst (BranchInst nextBlock)) (\<lambda>t.
      thenR (updCurFunction (\<lambda>c. c\<lparr>entryTerminator := instId t\<rparr>))
        (setInsertionBlock nextBlock))))
     (\<lambda>_. phaseK z L F N entry)"
proof (rule validI)
  fix s x s' assume p: "phaseP z L F N entry s"
    and run: "bindR (createBasicBlock f) (\<lambda>nextBlock.
      bindR (insertInst (BranchInst nextBlock)) (\<lambda>t.
      thenR (updCurFunction (\<lambda>c. c\<lparr>entryTerminator := instId t\<rparr>))
        (setInsertionBlock nextBlock))) s = Inr (x, s')"
  from p have wf: "wfState s" and ins: "insertionBlock s = Some entry"
    and el: "entry \<in> L \<or> length (blocks z) \<le> entry" and eb: "entry < length (blocks s)"
    and N: "N \<le> length (functionList z)" and zl: "length (blocks z) \<le> length (blocks s)"
    by (simp_all add: phaseP_def phaseE_def phaseD_def frame_def)
  from run obtain nb s1 t s2 u s3 where
    r1: "createBasicBlock F s = Inr (nb, s1)"
    and r2: "insertInst (BranchInst nb) s1 = Inr (t, s2)"
    and r3: "updCurFunction (\<lambda>c. c\<lparr>entryTerminator := instId t\<rparr>) s2 = Inr (u, s3)"
    and r4: "setInsertionBlock nb s3 = Inr (x, s')"
    unfolding F by (elim bindR_InrE thenR_InrE)
  have FF: "F \<in> {F}" by simp
  note c1 = ext_createBasicBlock [OF wf FF r1]
  from validD [OF createBasicBlock_phaseP p r1]
  have p1: "phaseP z L F N entry s1" and pn1: "phaseE z L F N nb s1" by simp_all
  then have wf1: "wfState s1" and ins1: "insertionBlock s1 = Some entry"
    by (simp_all add: phaseP_def phaseE_def phaseD_def frame_def)
  have nbl: "nb < length (blocks s1)" using c1(2,3) by simp
  have ne: "entry \<noteq> nb" using eb c1(2) by simp
  have succ: "\<forall>b \<in> set (successors (BranchInst nb)). b < length (blocks s1)"
    using nbl by simp
  have gen: "\<forall>g. BranchInst nb = CreateGeneratorInst g \<longrightarrow>
      length (functionList s1) \<le> g \<and> g < length (functionList s1)" by simp
  note i2 = insertInst_frame [OF wf1 r2 succ gen]
  from i2(1) [of "{}"] have fr2: "frame {entry} {} (length (functionList s1)) s1 s2" by (simp add: ins1)
  have pe2: "phaseE z L F N entry s2"
    using p1 [unfolded phaseP_def, THEN conjunct1] fr2 by (rule phaseE_step) (use el in auto)
  have pn2: "phaseE z L F N nb s2"
    using pn1 fr2 by (rule phaseE_step) (use el in auto)
  from i2(8) ins1 have e2: "bbInsts (blocks s2 ! entry) =
      bbInsts (blocks s1 ! entry) @ [(instCount s1, BranchInst nb)]"
    by auto
  from pe2 obtain c cs where stack: "functionContext s2 = c # cs" "ctxFunction c = F"
    by (auto simp: phaseE_def phaseD_def curIs_def)
  from r3 r4 stack i2(5) have s': "s' = s2\<lparr>functionContext := c\<lparr>entryTerminator := Some (instCount s1)\<rparr> # cs,
      insertionBlock := Some nb\<rparr>"
    by (auto simp: updCurFunction_def setInsertionBlock_def modifyR_def instId_def)
  from pe2 pn2 have fz: "frame L {F} N z s2" and wf2: "wfState s2"
    and l2: "entry < length (blocks s2)" "nb < length (blocks s2)"
    and par: "bbParent (blocks s2 ! entry) = F" "bbParent (blocks s2 ! nb) = F"
    by (simp_all add: phaseE_def phaseD_def frame_def)
  have wf': "wfState s'"
    using wf2 l2(2) unfolding wfState_def wfInsts_def allInsts_def blockIds_def s' by simp
  have "frame {} {} (length (functionList s2)) s2 s'"
    using wf' stack by (simp add: frame_def s' allInsts_def ctxCore_def)
  from frame_trans [OF fz this] frameD(3) [OF fz] N
  have fz': "frame L {F} N z s'" by simp
  have "atTerminator F (instCount s1) entry nb s'"
    unfolding atTerminator_def
    using stack l2 par ne e2 by (simp add: s')
  moreover have "length (blocks z) \<le> nb" using zl c1(2) by simp
  ultimately show "phaseK z L F N entry s'"
    unfolding phaseK_def using fz' N el by blast
qed

subsection \<open>The block merge of the epilogue\<close>

lemma find_upt_from:
  assumes "m \<le> b" and "b < n" and "P b" and "\<And>b'. b' < n \<Longrightarrow> P b' \<Longrightarrow> b' = b"
  shows "find P [m..<n] = Some b"
  using assms(1)
proof (induction "b - m" arbitrary: m)
  case 0
  then have "m = b" by simp
  with assms(2,3) show ?case by (simp add: upt_conv_Cons)
next
  case (Suc k)
  then have lt: "m < b" by simp
  with assms(2) have mn: "m < n" by simp
  have "\<not> P m"
  proof
    assume "P m"
    from assms(4) [OF mn this] lt show False by simp
  qed
  moreover have "find P [Suc m..<n] = Some b"
    using Suc by (intro Suc.hyps(1)) simp_all
  ultimately show ?case using mn by (simp add: upt_conv_Cons)
qed

lemma find_upt_unique:
  assumes "b < n" and "P b" and "\<And>b'. b' < n \<Longrightarrow> P b' \<Longrightarrow> b' = b"
  shows "find P [0..<n] = Some b"
  using find_upt_from [of 0 b n P] assms by blast

lemma termAtD:
  assumes "termAt t eb nb pre s"
  shows "eb < length (blocks s)" "nb < length (blocks s)" "eb \<noteq> nb"
    "bbInsts (blocks s ! eb) = pre @ [(t, BranchInst nb)]"
    "t \<notin> fst ` set pre"
    "\<And>b. b < length (blocks s) \<Longrightarrow> b \<noteq> eb \<Longrightarrow> t \<notin> fst ` set (bbInsts (blocks s ! b))"
  using assms by (simp_all add: termAt_def)

lemma termAt_instBlock:
  assumes "termAt t eb nb pre s"
  shows "instBlock t s = Some eb"
proof -
  have 1: "eb < length (blocks s)" by (rule termAtD(1) [OF assms])
  have "fst (t, BranchInst nb) \<in> fst ` set (pre @ [(t, BranchInst nb)])"
    by (rule imageI) simp
  then have 2: "t \<in> fst ` set (bbInsts (blocks s ! eb))"
    by (simp only: termAtD(4) [OF assms] fst_conv)
  have 3: "b' = eb" if "b' < length (blocks s)" "t \<in> fst ` set (bbInsts (blocks s ! b'))" for b'
  proof (rule ccontr)
    assume "b' \<noteq> eb"
    from termAtD(6) [OF assms that(1) this] that(2) show False by contradiction
  qed
  show ?thesis
    unfolding instBlock_def
    by (rule find_upt_unique [where P = "\<lambda>b. t \<in> fst ` set (bbInsts (blocks s ! b))", OF 1 2 3])
qed

lemma termAt_getInst:
  assumes "termAt t eb nb pre s"
  shows "map_of (allInsts s) t = Some (BranchInst nb)"
proof -
  have "(t, BranchInst nb) \<in> set (bbInsts (blocks s ! eb))"
    by (simp add: termAtD(4) [OF assms])
  with termAtD(1) [OF assms] have mem: "(t, BranchInst nb) \<in> set (allInsts s)"
    unfolding in_allInsts_iff by blast
  then have "fst (t, BranchInst nb) \<in> fst ` set (allInsts s)" by (rule imageI)
  then have "map_of (allInsts s) t \<noteq> None"
    by (simp add: map_of_eq_None_iff)
  then obtain i where i: "map_of (allInsts s) t = Some i" by blast
  then have "(t, i) \<in> set (allInsts s)" by (rule map_of_SomeD)
  then obtain b where b: "b < length (blocks s)" "(t, i) \<in> set (bbInsts (blocks s ! b))"
    unfolding in_allInsts_iff by blast
  from b(2) have tin: "fst (t, i) \<in> fst ` set (bbInsts (blocks s ! b))" by (rule imageI)
  have "b = eb"
  proof (rule ccontr)
    assume "b \<noteq> eb"
    from termAtD(6) [OF assms b(1) this] tin show False by simp
  qed
  with b(2) have "(t, i) \<in> set (pre @ [(t, BranchInst nb)])"
    by (simp add: termAtD(4) [OF assms])
  moreover have "(t, i) \<notin> set pre"
  proof
    assume "(t, i) \<in> set pre"
    then have "fst (t, i) \<in> fst ` set pre" by (rule imageI)
    with termAtD(5) [OF assms] show False by simp
  qed
  ultimately have "i = BranchInst nb" by simp
  with i show ?thesis by simp
qed


lemma setInsts_length [simp]: "length (setInsts b is B) = length B"
  by (simp add: setInsts_def)

lemma setInsts_nth:
  "b' < length B \<Longrightarrow>
   setInsts b is B ! b' = (if b' = b then (B ! b)\<lparr>bbInsts := is\<rparr> else B ! b')"
  by (simp add: setInsts_def)

lemma setInsts_same:
  assumes "bbInsts (B ! b) = is"
  shows "setInsts b is B = B"
proof -
  have "(B ! b)\<lparr>bbInsts := is\<rparr> = B ! b"
    using assms by (cases "B ! b") auto
  then show ?thesis by (simp add: setInsts_def)
qed

lemma setInsts_twice [simp]: "setInsts b is (setInsts b js B) = setInsts b is B"
proof (cases "b < length B")
  case True
  then show ?thesis by (simp add: setInsts_def)
next
  case False
  then have "length B \<le> b" by simp
  then have beyond: "\<And>x. B[b := x] = B" by (rule list_update_beyond)
  show ?thesis unfolding setInsts_def beyond ..
qed

lemma setInsts_commute:
  "b \<noteq> b' \<Longrightarrow> setInsts b is (setInsts b' js B) = setInsts b' js (setInsts b is B)"
  by (simp add: setInsts_def list_update_swap)

lemma termAt_setInsts_nb:
  assumes "termAt t eb nb pre s" and "t \<notin> fst ` set is"
  shows "termAt t eb nb pre (s\<lparr>blocks := setInsts nb is (blocks s)\<rparr>)"
  unfolding termAt_def
proof (intro conjI allI impI)
  show "eb < length (blocks (s\<lparr>blocks := setInsts nb is (blocks s)\<rparr>))"
    "nb < length (blocks (s\<lparr>blocks := setInsts nb is (blocks s)\<rparr>))" "eb \<noteq> nb"
    "t \<notin> fst ` set pre"
    using termAtD(1-3,5) [OF assms(1)] by simp_all
  show "bbInsts (blocks (s\<lparr>blocks := setInsts nb is (blocks s)\<rparr>) ! eb) = pre @ [(t, BranchInst nb)]"
    using termAtD(1,3,4) [OF assms(1)] by (simp add: setInsts_nth)
  fix b assume "b < length (blocks (s\<lparr>blocks := setInsts nb is (blocks s)\<rparr>))" "b \<noteq> eb"
  then show "t \<notin> fst ` set (bbInsts (blocks (s\<lparr>blocks := setInsts nb is (blocks s)\<rparr>) ! b))"
    using termAtD(6) [OF assms(1), of b] assms(2) by (simp add: setInsts_nth)
qed

lemma termAt_setInsts_eb:
  assumes "termAt t eb nb pre s" and "t \<notin> fst ` set pre'"
  shows "termAt t eb nb pre' (s\<lparr>blocks := setInsts eb (pre' @ [(t, BranchInst nb)]) (blocks s)\<rparr>)"
  unfolding termAt_def
proof (intro conjI allI impI)
  let ?s = "s\<lparr>blocks := setInsts eb (pre' @ [(t, BranchInst nb)]) (blocks s)\<rparr>"
  show "eb < length (blocks ?s)" "nb < length (blocks ?s)" "eb \<noteq> nb" "t \<notin> fst ` set pre'"
    using termAtD(1-3) [OF assms(1)] assms(2) by simp_all
  show "bbInsts (blocks ?s ! eb) = pre' @ [(t, BranchInst nb)]"
    using termAtD(1) [OF assms(1)] by (simp add: setInsts_nth)
  fix b assume "b < length (blocks ?s)" "b \<noteq> eb"
  then show "t \<notin> fst ` set (bbInsts (blocks ?s ! b))"
    using termAtD(6) [OF assms(1), of b] by (simp add: setInsts_nth)
qed

lemma takeWhile_terminator:
  assumes "t \<notin> fst ` set pre"
  shows "takeWhile (\<lambda>x. fst x \<noteq> t) (pre @ [(t, i)]) = pre"
    "dropWhile (\<lambda>x. fst x \<noteq> t) (pre @ [(t, i)]) = [(t, i)]"
    "filter (\<lambda>x. fst x \<noteq> t) (pre @ [(t, i)]) = pre"
proof -
  have all: "\<And>x. x \<in> set pre \<Longrightarrow> fst x \<noteq> t"
    using assms by (metis imageI)
  show "takeWhile (\<lambda>x. fst x \<noteq> t) (pre @ [(t, i)]) = pre"
    using all by (simp add: takeWhile_append2)
  show "dropWhile (\<lambda>x. fst x \<noteq> t) (pre @ [(t, i)]) = [(t, i)]"
    using all by (simp add: dropWhile_append2)
  show "filter (\<lambda>x. fst x \<noteq> t) (pre @ [(t, i)]) = pre"
    using all by (simp add: filter_id_conv)
qed

lemma moveFirstBefore_termAt:
  assumes "termAt t eb nb pre s" and "bbInsts (blocks s ! nb) = i # rest"
  shows "moveFirstBefore nb t s = Inr ((),
      s\<lparr>blocks := setInsts eb ((pre @ [i]) @ [(t, BranchInst nb)])
                    (setInsts nb rest (blocks s))\<rparr>)"
proof -
  let ?s1 = "s\<lparr>blocks := setInsts nb rest (blocks s)\<rparr>"
  have "fst i \<in> fst ` set (bbInsts (blocks s ! nb))"
    by (simp add: assms(2))
  with termAtD(6) [OF assms(1) termAtD(2) [OF assms(1)]] termAtD(3) [OF assms(1)]
  have ti: "fst i \<noteq> t" by metis
  have "t \<notin> fst ` set (bbInsts (blocks s ! nb))"
    using termAtD(6) [OF assms(1) termAtD(2) [OF assms(1)]] termAtD(3) [OF assms(1)] by simp
  then have "t \<notin> fst ` set rest" by (simp add: assms(2))
  from termAt_setInsts_nb [OF assms(1) this] have t1: "termAt t eb nb pre ?s1" .
  have upd: "updBlock nb (\<lambda>bb. bb\<lparr>bbInsts := rest\<rparr>) s = ?s1"
    by (simp add: updBlock_def setInsts_def)
  have ib: "instBlock t ?s1 = Some eb" by (rule termAt_instBlock [OF t1])
  have eb1: "bbInsts (blocks ?s1 ! eb) = pre @ [(t, BranchInst nb)]"
    by (rule termAtD(4) [OF t1])
  show ?thesis
    unfolding moveFirstBefore_def assms(2) Let_def upd
    using ib eb1 takeWhile_terminator(1,2) [OF termAtD(5) [OF assms(1)], of "BranchInst nb"]
    by (simp add: updBlock_def setInsts_def)
qed

lemma moveAllBefore_termAt:
  assumes "termAt t eb nb pre s" and "bbInsts (blocks s ! nb) = X"
  shows "moveAllBefore (length X) nb t s = Inr ((),
      s\<lparr>blocks := setInsts eb (pre @ X @ [(t, BranchInst nb)]) (setInsts nb [] (blocks s))\<rparr>)"
  using assms
proof (induction X arbitrary: s pre)
  case Nil
  have "setInsts eb (pre @ [(t, BranchInst nb)]) (setInsts nb [] (blocks s)) = blocks s"
    using termAtD(3,4) [OF Nil(1)] termAtD(1,2) [OF Nil(1)] Nil(2)
    by (simp add: setInsts_same setInsts_nth)
  with Nil show ?case by simp
next
  case (Cons i rest)
  let ?s1 = "s\<lparr>blocks := setInsts eb ((pre @ [i]) @ [(t, BranchInst nb)])
                    (setInsts nb rest (blocks s))\<rparr>"
  have step: "moveFirstBefore nb t s = Inr ((), ?s1)"
    by (rule moveFirstBefore_termAt [OF Cons.prems])
  have "fst i \<in> fst ` set (bbInsts (blocks s ! nb))"
    by (simp add: Cons.prems(2))
  with termAtD(6) [OF Cons.prems(1) termAtD(2) [OF Cons.prems(1)]] termAtD(3) [OF Cons.prems(1)]
  have ti: "fst i \<noteq> t" by metis
  have tn: "t \<notin> fst ` set (bbInsts (blocks s ! nb))"
    using termAtD(6) [OF Cons.prems(1) termAtD(2) [OF Cons.prems(1)]] termAtD(3) [OF Cons.prems(1)]
    by simp
  then have tr: "t \<notin> fst ` set rest" by (simp add: Cons.prems(2))
  have tp: "t \<notin> fst ` set (pre @ [i])"
    using termAtD(5) [OF Cons.prems(1)] ti by auto
  have t1: "termAt t eb nb (pre @ [i]) ?s1"
    using termAt_setInsts_eb [OF termAt_setInsts_nb [OF Cons.prems(1) tr] tp] by simp
  have nb1: "bbInsts (blocks ?s1 ! nb) = rest"
    using termAtD(1-3) [OF Cons.prems(1)] by (simp add: setInsts_nth)
  from Cons.IH [OF t1 nb1]
  have "moveAllBefore (length rest) nb t ?s1 = Inr ((),
      ?s1\<lparr>blocks := setInsts eb ((pre @ [i]) @ rest @ [(t, BranchInst nb)])
                      (setInsts nb [] (blocks ?s1))\<rparr>)" .
  moreover have "setInsts eb ((pre @ [i]) @ rest @ [(t, BranchInst nb)]) (setInsts nb [] (blocks ?s1))
      = setInsts eb (pre @ (i # rest) @ [(t, BranchInst nb)]) (setInsts nb [] (blocks s))"
    using termAtD(3) [OF Cons.prems(1)]
    by (simp add: setInsts_commute [of nb eb])
  ultimately show ?case
    using step Cons.prems(2) by (simp add: thenR_def bindR_def)
qed



lemma atTerminator_termAt:
  assumes wf: "wfState s" and k: "atTerminator F t eb nb s"
  shows "termAt t eb nb (butlast (bbInsts (blocks s ! eb))) s"
proof -
  from k obtain pre where l: "eb < length (blocks s)" "nb < length (blocks s)" "eb \<noteq> nb"
    and eb: "bbInsts (blocks s ! eb) = pre @ [(t, BranchInst nb)]"
    unfolding atTerminator_def by blast
  have pre: "butlast (bbInsts (blocks s ! eb)) = pre" by (simp add: eb)
  from wfStateD(2) [OF wf l(1)] have "t \<notin> fst ` set pre" by (simp add: eb)
  moreover have "t \<notin> fst ` set (bbInsts (blocks s ! b))" if "b < length (blocks s)" "b \<noteq> eb" for b
  proof -
    have "t \<in> blockIds s eb" by (simp add: blockIds_def eb)
    with wfStateD(3) [OF wf l(1) that(1)] that(2) show ?thesis
      by (auto simp: blockIds_def)
  qed
  ultimately show ?thesis
    unfolding termAt_def pre using l eb by simp
qed

lemma merge_closed:
  assumes ta: "termAt t eb nb pre s" and stack: "functionContext s = c # cs"
  shows "mergeEntryAndNextBlock nb t s = Inr ((),
     updFunction (bbParent (blocks s ! nb)) (\<lambda>fn. fn\<lparr>basicBlocks := removeAll nb (basicBlocks fn)\<rparr>)
       (s\<lparr>blocks := setInsts eb (pre @ bbInsts (blocks s ! nb)) (setInsts nb [] (blocks s)),
          functionContext := c\<lparr>entryTerminator := None\<rparr> # cs\<rparr>))"
proof -
  let ?X = "bbInsts (blocks s ! nb)"
  let ?sm = "s\<lparr>blocks := setInsts eb (pre @ ?X @ [(t, BranchInst nb)]) (setInsts nb [] (blocks s))\<rparr>"
  have mv: "moveAllBefore (length ?X) nb t s = Inr ((), ?sm)"
    by (rule moveAllBefore_termAt [OF ta refl])
  have tx: "t \<notin> fst ` set ?X"
    using termAtD(6) [OF ta termAtD(2) [OF ta]] termAtD(3) [OF ta] by simp
  have tp: "t \<notin> fst ` set (pre @ ?X)"
    using termAtD(5) [OF ta] tx by auto
  have "t \<notin> fst ` set ([] :: (nat \<times> Instruction) list)" by simp
  from termAt_setInsts_eb [OF termAt_setInsts_nb [OF ta this] tp]
  have tm: "termAt t eb nb (pre @ ?X) ?sm" by simp
  have ib: "instBlock t ?sm = Some eb" by (rule termAt_instBlock [OF tm])
  have ebm: "bbInsts (blocks ?sm ! eb) = (pre @ ?X) @ [(t, BranchInst nb)]"
    by (rule termAtD(4) [OF tm])
  have fl: "filter (\<lambda>x. fst x \<noteq> t) (bbInsts (blocks ?sm ! eb)) = pre @ ?X"
    unfolding ebm by (rule takeWhile_terminator(3) [OF tp])
  have "updBlock eb (\<lambda>bb. bb\<lparr>bbInsts := filter (\<lambda>x. fst x \<noteq> t) (bbInsts bb)\<rparr>) ?sm =
      ?sm\<lparr>blocks := setInsts eb (filter (\<lambda>x. fst x \<noteq> t) (bbInsts (blocks ?sm ! eb))) (blocks ?sm)\<rparr>"
    by (simp add: updBlock_def setInsts_def)
  also have "\<dots> = s\<lparr>blocks := setInsts eb (pre @ ?X) (setInsts nb [] (blocks s))\<rparr>"
    unfolding fl by simp
  finally have er: "eraseInst t ?sm = Inr ((),
      s\<lparr>blocks := setInsts eb (pre @ ?X) (setInsts nb [] (blocks s))\<rparr>)"
    unfolding eraseInst_def ib by simp
  have par: "bbParent (setInsts eb (pre @ ?X) (setInsts nb [] (blocks s)) ! nb) = bbParent (blocks s ! nb)"
    using termAtD(1-3) [OF ta] by (simp add: setInsts_nth)
  show ?thesis
    unfolding mergeEntryAndNextBlock_def
    using mv er stack par
    by (simp add: bindR_def thenR_def updCurFunction_def eraseBlock_def)
qed

lemma epilogue_closed:
  assumes wf: "wfState s" and k: "atTerminator F t eb nb s"
  shows "emitFunctionEpilogue None s = Inr ((),
     updFunction F (\<lambda>fn. fn\<lparr>statementCount := None\<rparr>)
       (if numUsers nb s = 1 then mergedState F eb nb s else s))"
proof -
  from k obtain c cs where stack: "functionContext s = c # cs" "ctxFunction c = F"
    "entryTerminator c = Some t" and par: "bbParent (blocks s ! nb) = F"
    unfolding atTerminator_def by blast
  note ta = atTerminator_termAt [OF wf k]
  have gi: "map_of (allInsts s) t = Some (BranchInst nb)" by (rule termAt_getInst [OF ta])
  have mg: "mergeEntryAndNextBlock nb t s = Inr ((), mergedState F eb nb s)"
    using merge_closed [OF ta stack(1)] stack(1) par by (simp add: mergedState_def)
  show ?thesis
    unfolding emitFunctionEpilogue_def
    using stack gi mg
    by (simp add: bindR_def thenR_def okR_def curFunction_def getInst_def getNumUsers_def
        hasUser_def numUsers_def modifyR_def)
qed

lemma epilogue_Some:
  "emitFunctionEpilogue (Some v) =
     thenR (bindR getFunction (\<lambda>f.
            bindR (getFunctionRec f) (\<lambda>fn.
            thenR (setLocation (convertEndToLocation (fnSourceRange fn)))
           (thenR (insertInst (ReturnInst v)) (okR ())))))
       (emitFunctionEpilogue None)"
  unfolding emitFunctionEpilogue_def
  by (rule ext) (simp add: bindR_def thenR_def okR_def split: sum.splits)


lemma mergedState_frame:
  assumes wf: "wfState s" and k: "atTerminator F t eb nb s"
  shows "frame {eb, nb} {F} (length (functionList s)) s (mergedState F eb nb s)"
    and "curIs F (mergedState F eb nb s)"
    and "insertionBlock (mergedState F eb nb s) = Some nb"
proof -
  let ?m = "mergedState F eb nb s"
  let ?X = "bbInsts (blocks s ! nb)"
  from k obtain c cs pre where stack: "functionContext s = c # cs" "ctxFunction c = F"
    and l: "eb < length (blocks s)" "nb < length (blocks s)" "eb \<noteq> nb"
    and eb: "bbInsts (blocks s ! eb) = pre @ [(t, BranchInst nb)]"
    and ins: "insertionBlock s = Some nb"
    unfolding atTerminator_def by blast
  have pre: "butlast (bbInsts (blocks s ! eb)) = pre" by (simp add: eb)
  have len: "length (blocks ?m) = length (blocks s)"
    by (simp add: mergedState_def updFunction_def)
  have nth: "blocks ?m ! b =
      (if b = eb then (blocks s ! eb)\<lparr>bbInsts := pre @ ?X\<rparr>
       else if b = nb then (blocks s ! nb)\<lparr>bbInsts := []\<rparr> else blocks s ! b)"
    if "b < length (blocks s)" for b
    using that l by (simp add: mergedState_def updFunction_def setInsts_nth pre)
  have ids: "blockIds ?m b =
      (if b = eb then fst ` set pre \<union> blockIds s nb else if b = nb then {} else blockIds s b)"
    if "b < length (blocks s)" for b
    using that by (auto simp: blockIds_def nth)
  have ideb: "blockIds s eb = insert t (fst ` set pre)"
    by (simp add: blockIds_def eb)
  have sub: "ix \<in> set (allInsts s)" if "ix \<in> set (allInsts ?m)" for ix
  proof -
    from that obtain b where b: "b < length (blocks s)" "ix \<in> set (bbInsts (blocks ?m ! b))"
      unfolding in_allInsts_iff len by blast
    then have "ix \<in> set (bbInsts (blocks s ! b)) \<or> ix \<in> set (bbInsts (blocks s ! eb)) \<or> ix \<in> set ?X"
      by (auto simp: nth eb split: if_splits)
    with b(1) l show ?thesis
      by (auto intro: in_allInsts)
  qed
  have "wfInsts ?m"
    unfolding wfInsts_def
  proof
    fix ix assume "ix \<in> set (allInsts ?m)"
    from sub [OF this] wfStateD(1) [OF wf]
    show "fst ix < instCount ?m \<and> (\<forall>b \<in> set (successors (snd ix)). b < length (blocks ?m))"
      unfolding len by (simp add: wfInsts_def mergedState_def updFunction_def)
  qed
  moreover have "distinct (map fst (bbInsts (blocks ?m ! b)))" if "b < length (blocks s)" for b
  proof (cases "b = eb")
    case True
    have "distinct (map fst pre)" using wfStateD(2) [OF wf l(1)] by (simp add: eb)
    moreover have "distinct (map fst ?X)" by (rule wfStateD(2) [OF wf l(2)])
    moreover have "fst ` set pre \<inter> fst ` set ?X = {}"
      using wfStateD(3) [OF wf l] by (auto simp: blockIds_def eb)
    ultimately show ?thesis using True that by (simp add: nth)
  next
    case False
    then show ?thesis using wfStateD(2) [OF wf that] that by (simp add: nth)
  qed
  moreover have "blockIds ?m b1 \<inter> blockIds ?m b2 = {}"
    if "b1 < length (blocks s)" "b2 < length (blocks s)" "b1 \<noteq> b2" for b1 b2
    using that wfStateD(3) [OF wf that] wfStateD(3) [OF wf l(1), of b1] wfStateD(3) [OF wf l(1), of b2]
      wfStateD(3) [OF wf l(2), of b1] wfStateD(3) [OF wf l(2), of b2]
    by (simp add: ids ideb) blast
  moreover have "g < length (functionList ?m)" if "(i, CreateGeneratorInst g) \<in> set (allInsts ?m)" for i g
    using wfStateD(5) [OF wf sub [OF that]] by (simp add: mergedState_def updFunction_def)
  ultimately have wfm: "wfState ?m"
    unfolding wfState_def len using l(2) ins by (simp add: mergedState_def updFunction_def)
  have par: "bbParent (blocks ?m ! b) = bbParent (blocks s ! b)" if "b < length (blocks s)" for b
    using that by (simp add: nth)
  have same: "blocks ?m ! b = blocks s ! b" if "b < length (blocks s)" "b \<notin> {eb, nb}" for b
    using that by (simp add: nth)
  show "frame {eb, nb} {F} (length (functionList s)) s ?m"
    unfolding frame_def
  proof (intro conjI allI impI)
    show "wfState ?m" by fact
    show "length (blocks s) \<le> length (blocks ?m)" by (simp add: len)
    show "length (functionList s) \<le> length (functionList ?m)"
      by (simp add: mergedState_def updFunction_def)
    show "tl (functionContext ?m) = tl (functionContext s)"
      by (simp add: mergedState_def updFunction_def)
    show "map ctxCore (functionContext ?m) = map ctxCore (functionContext s)"
      using stack by (simp add: mergedState_def updFunction_def ctxCore_def)
  next
    fix i g assume "(i, CreateGeneratorInst g) \<in> set (allInsts ?m)"
    from sub [OF this]
    show "(i, CreateGeneratorInst g) \<in> set (allInsts s) \<or> length (functionList s) \<le> g" by simp
  next
    fix b assume b: "b < length (blocks s)"
    show "bbParent (blocks ?m ! b) = bbParent (blocks s ! b)" by (rule par [OF b])
    assume "b \<notin> {eb, nb}"
    with b show "blocks ?m ! b = blocks s ! b" by (rule same)
  next
    fix g assume g: "g < length (functionList s)"
    then show "valueKind (functionList ?m ! g) = valueKind (functionList s ! g)"
      by (simp add: mergedState_def updFunction_def nth_update_if)
    assume "g \<notin> {F}"
    with g show "functionList ?m ! g = functionList s ! g"
      by (simp add: mergedState_def updFunction_def nth_update_if)
  qed
  show "curIs F ?m"
    using stack by (simp add: curIs_def mergedState_def updFunction_def)
  show "insertionBlock ?m = Some nb"
    using ins by (simp add: mergedState_def updFunction_def)
qed

lemma epilogue_phase: "valid (phaseK z L F N eb) (emitFunctionEpilogue rv) (\<lambda>_. phaseD z L F N)"
proof -
  have none: "valid (phaseK z L F N eb) (emitFunctionEpilogue None) (\<lambda>_. phaseD z L F N)"
  proof (rule validI)
    fix s x s' assume p: "phaseK z L F N eb s" and run: "emitFunctionEpilogue None s = Inr (x, s')"
    then obtain t nb where f: "frame L {F} N z s" and N: "N \<le> length (functionList z)"
      and el: "eb \<in> L \<or> length (blocks z) \<le> eb" and nbn: "length (blocks z) \<le> nb"
      and k: "atTerminator F t eb nb s"
      unfolding phaseK_def by blast
    from f have wf: "wfState s" by (simp add: frame_def)
    from k have c: "curIs F s" unfolding atTerminator_def curIs_def by blast
    have d: "phaseD z L F N s" using f c N by (simp add: phaseD_def)
    let ?s1 = "if numUsers nb s = 1 then mergedState F eb nb s else s"
    from run epilogue_closed [OF wf k]
    have s': "s' = updFunction F (\<lambda>fn. fn\<lparr>statementCount := None\<rparr>) ?s1" by simp
    have f1: "frame {eb, nb} {F} (length (functionList s)) s ?s1"
      using mergedState_frame(1) [OF wf k] frame_refl [OF wf] by simp
    have d1: "phaseD z L F N ?s1"
      using d f1 by (rule phaseD_step) (use el nbn in auto)
    then have wf1: "wfState ?s1" by (simp add: phaseD_def frame_def)
    have "ext {F} ?s1 s'"
      unfolding s' by (rule ext_updFunction [OF wf1]) simp_all
    then have f2: "frame (set_option (insertionBlock ?s1)) {F} (length (functionList ?s1)) ?s1 s'"
      by (simp add: ext_def)
    have i1: "insertionBlock ?s1 = Some nb"
      using mergedState_frame(3) [OF wf k] k unfolding atTerminator_def by auto
    show "phaseD z L F N s'"
      using d1 f2 by (rule phaseD_step) (use nbn i1 in auto)
  qed
  show ?thesis
  proof (cases rv)
    case None
    with none show ?thesis by simp
  next
    case (Some v)
    have "keeps {} (bindR getFunction (\<lambda>f.
            bindR (getFunctionRec f) (\<lambda>fn.
            thenR (setLocation (convertEndToLocation (fnSourceRange fn)))
           (thenR (insertInst (ReturnInst v)) (okR ())))))"
      by (intro keeps_intros) simp_all
    from valid_then [OF keeps_phaseK [OF this] none] Some show ?thesis
      by (simp add: epilogue_Some)
  qed
qed

lemma runs_bindE:
  assumes "runs (bindR m f) s y s''"
  obtains x s' where "m s = Inr (x, s')" and "runs (f x) s' y s''"
  using assms unfolding runs_def by (rule bindR_InrE)

lemma runs_thenE:
  assumes "runs (thenR m k) s y s''"
  obtains x s' where "m s = Inr (x, s')" and "runs k s' y s''"
  using assms unfolding runs_def by (rule thenR_InrE)

lemma runs_valid: "runs m s x s' \<Longrightarrow> P s \<Longrightarrow> valid P m Q \<Longrightarrow> Q x s'"
  unfolding runs_def valid_def by blast


subsection \<open>Entering and leaving a context\<close>

lemma driverI:
  assumes "\<And>s x s'. wfState s \<Longrightarrow> m s = Inr (x, s') \<Longrightarrow>
      frame {} {} (length (functionList s)) s s' \<and>
      insertionBlock s' = insertionBlock s \<and>
      entryTerminators s' = entryTerminators s \<and>
      x = length (functionList s) \<and> x < length (functionList s')"
  shows "driver m"
  using assms unfolding driver_def by blast

lemma driverD:
  assumes "driver m" and "wfState s" and "m s = Inr (x, s')"
  shows "frame {} {} (length (functionList s)) s s'"
    "insertionBlock s' = insertionBlock s"
    "entryTerminators s' = entryTerminators s"
    "x = length (functionList s)" "x < length (functionList s')"
  using assms unfolding driver_def by blast+

lemma driver_keeps: "driver m \<Longrightarrow> keeps LF m"
proof (rule keepsI)
  fix s x s' assume "driver m" "wfState s" "m s = Inr (x, s')"
  note d = driverD [OF this]
  from frame_mono [OF d(1), of "set_option (insertionBlock s)" LF "length (functionList s)"] d(2,3)
  show "ext LF s s'" by (simp add: ext_def)
qed

lemma bracket_enter:
  assumes "wfState s" and "N \<le> length (functionList s)"
    and "FunctionContext_ctor F si s = Inr (u, z)"
  shows "phaseD z L F N z"
proof -
  from assms(3) have z: "blocks z = blocks s" "instCount z = instCount s"
    "insertionBlock z = insertionBlock s" "functionList z = functionList s"
    "\<exists>c. functionContext z = c # functionContext s \<and> ctxFunction c = F"
    by (auto simp: FunctionContext_ctor_def modifyR_def)
  have "wfState z"
    using assms(1) by (rule wfState_cong) (simp_all add: z)
  then show ?thesis
    using z(5) assms(2) by (auto simp: phaseD_def frame_refl curIs_def z(4))
qed

lemma bracket_exit:
  assumes wf: "wfState s0" and z: "FunctionContext_ctor F si s0 = Inr (u, z)"
    and e: "exited z L F N s'"
  shows "frame L {F} N s0 s'" and "insertionBlock s' = insertionBlock s0"
    and "functionContext s' = functionContext s0"
proof -
  from e obtain s u' where p: "phaseD z L F N s" and d: "FunctionContext_dtor s = Inr (u', s')"
    unfolding exited_def by blast
  from z obtain c0 where z': "blocks z = blocks s0" "instCount z = instCount s0"
    "functionList z = functionList s0" "functionContext z = c0 # functionContext s0"
    "builderSaveState c0 = (insertionBlock s0, location s0)"
    by (auto simp: FunctionContext_ctor_def modifyR_def)
  have az: "allInsts z = allInsts s0" by (simp add: allInsts_def z')
  from p have f: "frame L {F} N z s" by (simp add: phaseD_def)
  from frameD(4,5) [OF f] z'(4,5) obtain c where
    stack: "functionContext s = c # functionContext s0"
    "builderSaveState c = (insertionBlock s0, location s0)"
    by (cases "functionContext s") (auto simp: ctxCore_def)
  from d stack have s': "s' = s\<lparr>functionContext := functionContext s0,
      nameTable := tl (nameTable s), insertionBlock := insertionBlock s0, location := location s0\<rparr>"
    by (simp add: FunctionContext_dtor_def)
  have wfs: "wfState s" by (rule frameD(1) [OF f])
  have insv: "b < length (blocks s)" if "insertionBlock s0 = Some b" for b
    using wfStateD(4) [OF wf that] frameD(2) [OF f] by (simp add: z')
  have wf': "wfState s'"
    using wfs insv unfolding wfState_def wfInsts_def allInsts_def blockIds_def s' by simp
  show "frame L {F} N s0 s'"
    using f wf' unfolding frame_def
    by (simp add: s' allInsts_def z')
  show "insertionBlock s' = insertionBlock s0" "functionContext s' = functionContext s0"
    by (simp_all add: s')
qed

lemma exit_plain:
  "valid (phaseD z L F N) (thenR FunctionContext_dtor (okR y))
     (\<lambda>x s'. x = y \<and> exited z L F N s')"
  by (rule validI) (auto elim!: thenR_InrE simp: okR_def exited_def)

lemma exit_current:
  "valid (phaseD z L F N) (bindR curFunction (\<lambda>c. thenR FunctionContext_dtor (okR (ctxFunction c))))
     (\<lambda>x s'. x = F \<and> exited z L F N s')"
proof (rule validI)
  fix s x s' assume p: "phaseD z L F N s"
    and run: "bindR curFunction (\<lambda>c. thenR FunctionContext_dtor (okR (ctxFunction c))) s = Inr (x, s')"
  from p obtain c cs where "functionContext s = c # cs" "ctxFunction c = F"
    by (auto simp: phaseD_def curIs_def)
  with run have "x = F" "\<exists>u. FunctionContext_dtor s = Inr (u, s')"
    by (auto elim!: bindR_InrE thenR_InrE simp: okR_def curFunction_def)
  with p show "x = F \<and> exited z L F N s'"
    unfolding exited_def by blast
qed

lemma exit_insert:
  "valid (phaseD z L F N) (thenR FunctionContext_dtor (insertInst i))
     (\<lambda>x s'. \<exists>s1. exited z L F N s1 \<and> insertInst i s1 = Inr (x, s'))"
  by (rule validI) (fastforce elim!: thenR_InrE simp: exited_def)

lemma emitParameters_phaseP:
  "valid (phaseP z L F N e) (emitParameters n) (\<lambda>_. phaseP z L F N e)"
proof (rule validI)
  fix s x s' assume p: "phaseP z L F N e s" and run: "emitParameters n s = Inr (x, s')"
  from p obtain c cs where stack: "functionContext s = c # cs" "ctxFunction c = F"
    by (auto simp: phaseP_def phaseE_def phaseD_def curIs_def)
  let ?m = "thenR (createParameter F (Some ''this''))
    (thenR (declareParamNames F (paramNames (getSemInfo n)))
       (emitParamLoop F (getParams n) (0 - 1)))"
  from run stack have run': "?m s = Inr (x, s')"
    by (simp add: emitParameters_def bindR_def curFunction_def Let_def)
  have "keeps {F} ?m"
    by (intro keeps_intros) simp_all
  from validD [OF keeps_phaseP [OF this] p run'] show "phaseP z L F N e s'" by simp
qed

lemma gen_phaseK:
  assumes "N \<le> g" and "g < length (functionList z)"
  shows "valid (phaseK z L F N eb) (insertInst (CreateGeneratorInst g)) (\<lambda>_. phaseK z L F N eb)"
proof (rule validI)
  fix s x s' assume p: "phaseK z L F N eb s"
    and run: "insertInst (CreateGeneratorInst g) s = Inr (x, s')"
  then obtain t nb where f: "frame L {F} N z s" and N: "N \<le> length (functionList z)"
    and el: "eb \<in> L \<or> length (blocks z) \<le> eb" and nbn: "length (blocks z) \<le> nb"
    and k: "atTerminator F t eb nb s"
    unfolding phaseK_def by blast
  from f have wf: "wfState s" by (simp add: frame_def)
  from k have ins: "insertionBlock s = Some nb" unfolding atTerminator_def by blast
  have succ: "\<forall>b \<in> set (successors (CreateGeneratorInst g)). b < length (blocks s)" by simp
  have gen: "\<forall>g'. CreateGeneratorInst g = CreateGeneratorInst g' \<longrightarrow>
      N \<le> g' \<and> g' < length (functionList s)"
    using assms frameD(3) [OF f] by simp
  note i = insertInst_frame [OF wf run succ gen]
  from i(1) [of "{}"] have fr: "frame {nb} {} N s s'" by (simp add: ins)
  from frame_trans [OF f fr] nbn have fz: "frame L {F} N z s'" by fastforce
  have "atTerminator F t eb nb s'"
    using fr _ _ k by (rule frame_atTerminator) (simp_all add: i(2,3) ins entryTerminators_def)
  with fz N el nbn show "phaseK z L F N eb s'"
    unfolding phaseK_def by blast
qed


lemma phaseKx_same:
  assumes "\<And>eb. valid (phaseK z L F N eb) m (\<lambda>_. phaseK z L F N eb)"
  shows "valid (phaseKx z L F N) m (\<lambda>_. phaseKx z L F N)"
  using assms unfolding valid_def phaseKx_def by blast

lemma phaseKx_leave:
  assumes "\<And>eb. valid (phaseK z L F N eb) m (\<lambda>_. R)"
  shows "valid (phaseKx z L F N) m (\<lambda>_. R)"
  using assms unfolding valid_def phaseKx_def by blast

lemma phaseKx_enter:
  assumes "valid P m (\<lambda>_. phaseK z L F N eb)"
  shows "valid P m (\<lambda>_. phaseKx z L F N)"
  using assms unfolding valid_def phaseKx_def by blast

subsection \<open>The frame of the lowering\<close>

lemma keeps_closed:
  "keeps {} (insertInst (CreateFunctionInst f))"
  "keeps {} (insertInst StartGeneratorInst)"
  "keeps {} (insertInst (AllocStackInst n))"
  "keeps {} (insertInst (OtherInst k))"
  "keeps {} (updCurFunction (\<lambda>c. c\<lparr>capturedThis := v\<rparr>))"
  "keeps {} (updCurFunction (\<lambda>c. c\<lparr>capturedNewTarget := v\<rparr>))"
  "keeps {} (updCurFunction (\<lambda>c. c\<lparr>capturedArguments := v\<rparr>))"
  by (rule keeps_intros; simp add: ctxCore_def)+

lemmas liftP = keeps_phaseP [OF _ empty_subsetI]
lemmas liftK = phaseKx_same [OF keeps_phaseK [OF _ empty_subsetI]]
lemmas chainP = valid_bind [OF liftP] valid_then [OF liftP]
lemmas chainKx = valid_bind [OF liftK] valid_then [OF liftK]
lemmas chainS = valid_bind [OF createBasicBlock_phaseD] valid_then [OF setInsertionBlock_phaseE]
  valid_bind [OF createBasicBlock_phaseP] valid_then [OF resume_phase]
  valid_then [OF phaseKx_leave [OF epilogue_phase]] exit_plain exit_current exit_insert
lemmas closedK = keeps_prims [of "{}"] keeps_anon [of "{}"] keeps_extern [of "{}"]
  keeps_initCapture [of "{}"] keeps_closed

lemma anon_frame:
  assumes "wfState s" and "genAnonymousLabelName hint s = Inr (x, s')"
  shows "frame {} {} N s s'" and "insertionBlock s' = insertionBlock s"
    and "entryTerminators s' = entryTerminators s" and "functionList s' = functionList s"
proof -
  from assms(2) obtain c cs where stack: "functionContext s = c # cs"
    and s': "s' = s\<lparr>functionContext :=
        c\<lparr>anonymousLabelCounter := Suc (anonymousLabelCounter c)\<rparr> # cs\<rparr>"
    by (auto simp: genAnonymousLabelName_def monad_defs curFunction_def updCurFunction_def
        split: list.splits)
  have wf': "wfState s'"
    using assms(1) by (rule wfState_cong) (simp_all add: s')
  then show "frame {} {} N s s'"
    by (simp add: frame_def s' allInsts_def stack ctxCore_def)
  show "insertionBlock s' = insertionBlock s" "entryTerminators s' = entryTerminators s"
    "functionList s' = functionList s"
    by (simp_all add: s' entryTerminators_def stack)
qed

text \<open>The state after a function was created and, possibly, given its closure alias.\<close>

lemma created_frame:
  assumes wf: "wfState s0" and s1: "s1 = s0\<lparr>functionList := functionList s0 @ [fn]\<rparr>"
  shows "wfState s1" and "frame {} {} (length (functionList s0)) s0 s1"
proof -
  show wf1: "wfState s1"
    using wf by (rule wfState_cong) (simp_all add: s1)
  then show "frame {} {} (length (functionList s0)) s0 s1"
    by (simp add: frame_def s1 allInsts_def nth_append)
qed

lemma lowering_frame:
  "keeps {} (genFunctionDeclaration func)"
  "keeps {} (genFunctionExpression FE nameHint)"
  "keeps {} (genArrowFunctionExpression AF nameHint2)"
  "driver (genES5Function origName lca functionNode isInner)"
  "driver (genGeneratorFunction origName2 lca2 functionNode2)"
  "\<forall>z L F N. valid (phaseE z L F N entry) (emitFunctionPrologue funcNode entry)
     (\<lambda>_. phaseK z L F N entry)"
  "keeps {} (genClosures cs)"
  "keeps {} (genStatement st)"
  "keeps {} (genBody sts)"
proof (induction func and FE nameHint and AF nameHint2 and origName lca functionNode isInner
    and origName2 lca2 functionNode2 and funcNode entry and cs and st and sts
    rule: lowering_induct)
  case (1 func)
  show ?case
    unfolding genFunctionDeclaration.simps [of func]
    by (auto intro!: keeps_intros driver_keeps "1.IH" split: option.splits)
next
  case (2 FE nameHint)
  show ?case
    unfolding genFunctionExpression.simps [of FE nameHint]
    by (auto intro!: keeps_intros driver_keeps "2.IH" split: option.splits)
next
  case (3 AF nameHint)
  note pro = valid_then [OF phaseKx_enter [OF "3.IH"(1) [rule_format]]]
  show ?case
  proof (rule keepsI)
    fix s0 x s' assume wf0: "wfState s0"
      and run: "genArrowFunctionExpression AF nameHint s0 = Inr (x, s')"
    let ?N = "length (functionList s0)"
    from run have "runs (genArrowFunctionExpression AF nameHint) s0 x s'"
      by (simp add: runs_def)
    then have "ext {} s0 s'"
      unfolding genArrowFunctionExpression.simps [of AF nameHint]
      apply -
      apply (erule runs_bindE)
      apply (erule runs_thenE)
      subgoal premises prems for f s1 u z
      proof -
        from prems(1) obtain fn where f: "f = ?N"
          and s1: "s1 = s0\<lparr>functionList := functionList s0 @ [fn]\<rparr>"
          by (auto simp: createFunction_def makeFunction_def)
        note c = created_frame [OF wf0 s1]
        have N1: "?N \<le> length (functionList s1)" by (simp add: s1)
        note ph = bracket_enter [OF c(1) N1 prems(2), of "{}"]
        have "\<exists>sd. exited z {} f ?N sd \<and> insertInst (CreateFunctionInst f) sd = Inr (x, s')"
          apply (rule runs_valid [where P = "phaseD z {} f ?N" and
                Q = "\<lambda>x s'. \<exists>sd. exited z {} f ?N sd \<and>
                  insertInst (CreateFunctionInst f) sd = Inr (x, s')", OF prems(3) ph])
          apply (rule chainS pro chainP chainKx | rule closedK "3.IH"(2))+
          done
        then obtain sd where ex: "exited z {} f ?N sd"
          and ins: "insertInst (CreateFunctionInst f) sd = Inr (x, s')"
          by blast
        note b = bracket_exit [OF c(1) prems(2) ex]
        from frame_trans [OF c(2) b(1)] f
        have fr: "frame {} {} ?N s0 sd" by simp
        have "ext {} s0 sd"
          unfolding ext_def
          using frame_mono [OF fr, of "set_option (insertionBlock s0)" "{}" ?N] b(2,3)
          by (simp add: s1 entryTerminators_def)
        moreover have "ext {} sd s'"
          using keeps_closed(1) frameD(1) [OF fr] ins by (rule keepsD)
        ultimately show ?thesis by (rule ext_trans)
      qed
      done
    then show "ext {} s0 s'" .
  qed
next
  case (4 origName lca functionNode isGeneratorInnerFunction)
  show ?case
  proof (cases "isLazyFunctionBody (attrs functionNode)")
    case True
    show ?thesis
    proof (rule driverI)
      fix s0 x s' assume wf0: "wfState s0"
        and run: "genES5Function origName lca functionNode isGeneratorInnerFunction s0 = Inr (x, s')"
      from run True obtain fn where x: "x = length (functionList s0)"
        and s': "s' = s0\<lparr>functionList := functionList s0 @ [fn]\<rparr>"
        by (auto simp: genES5Function.simps monad_defs builder_defs createGeneratorInnerFunction_def
            saveCurrentScope_def lazyParams_result split: if_splits)
      from created_frame [OF wf0 s'] x
      show "frame {} {} (length (functionList s0)) s0 s' \<and>
        insertionBlock s' = insertionBlock s0 \<and>
        entryTerminators s' = entryTerminators s0 \<and>
        x = length (functionList s0) \<and> x < length (functionList s')"
        by (simp add: s' entryTerminators_def)
    qed
  next
    case False
    have main: "frame {} {} (length (functionList s0)) s0 s' \<and>
        insertionBlock s' = insertionBlock s0 \<and>
        entryTerminators s' = entryTerminators s0 \<and>
        x = length (functionList s0) \<and> x < length (functionList s')"
      if wf0: "wfState s0"
        and upd: "modifyR (updFunction f (\<lambda>fn. fn\<lparr>lazyClosureAlias := lca\<rparr>)) sA = Inr (u, s1)"
        and ctor: "FunctionContext_ctor f si s1 = Inr (u', z)"
        and rest: "runs k z x s'"
        and sA: "\<exists>fn. sA = s0\<lparr>functionList := functionList s0 @ [fn]\<rparr> \<and> f = length (functionList s0)"
        and ch: "valid (phaseD z {} f (length (functionList s0))) k
           (\<lambda>x s'. x = f \<and> exited z {} f (length (functionList s0)) s')"
      for s0 x s' f sA u s1 si u' z k
    proof -
      let ?N = "length (functionList s0)"
      from sA upd obtain fn where s1: "s1 = s0\<lparr>functionList := functionList s0 @ [fn]\<rparr>"
        and f: "f = ?N"
        by (auto simp: modifyR_def updFunction_def)
      note c = created_frame [OF wf0 s1]
      have N1: "?N \<le> length (functionList s1)" by (simp add: s1)
      note ph = bracket_enter [OF c(1) N1 ctor, of "{}"]
      from runs_valid [OF rest ph ch] have xf: "x = f" and ex: "exited z {} f ?N s'" by simp_all
      note b = bracket_exit [OF c(1) ctor ex]
      from frame_trans [OF c(2) b(1)] f
      have fr: "frame {} {} ?N s0 s'" by simp
      moreover have "length (functionList s1) \<le> length (functionList s')"
        by (rule frameD(3) [OF b(1)])
      ultimately show ?thesis
        using b(2,3) xf f by (simp add: s1 entryTerminators_def)
    qed
    show ?thesis
    proof (cases isGeneratorInnerFunction)
      case True
      note pro = phaseKx_enter [OF "4.IH"(1) [OF False True, rule_format]]
      show ?thesis
      proof (rule driverI)
        fix s0 x s' assume wf0: "wfState s0"
          and run: "genES5Function origName lca functionNode isGeneratorInnerFunction s0 = Inr (x, s')"
        show "frame {} {} (length (functionList s0)) s0 s' \<and>
          insertionBlock s' = insertionBlock s0 \<and>
          entryTerminators s' = entryTerminators s0 \<and>
          x = length (functionList s0) \<and> x < length (functionList s')"
          using run [folded runs_def] False True
          unfolding genES5Function.simps [of origName lca functionNode isGeneratorInnerFunction]
          apply simp
          apply (erule runs_bindE)
          apply (erule runs_thenE)
          apply (erule runs_thenE)
          subgoal premises prems for f sA u s1 u' z
            apply (rule main [OF wf0])
                apply (rule prems)
               apply (rule prems)
              apply (rule prems)
            using prems apply (auto simp: createGeneratorInnerFunction_def makeFunction_def) [1]
            apply (rule chainS pro chainP chainKx valid_then | rule closedK "4.IH"(3) [OF False])+
            done
          done
      qed
    next
      case inner: False
      note pro = phaseKx_enter [OF "4.IH"(2) [OF False inner, rule_format]]
      show ?thesis
      proof (rule driverI)
        fix s0 x s' assume wf0: "wfState s0"
          and run: "genES5Function origName lca functionNode isGeneratorInnerFunction s0 = Inr (x, s')"
        show "frame {} {} (length (functionList s0)) s0 s' \<and>
          insertionBlock s' = insertionBlock s0 \<and>
          entryTerminators s' = entryTerminators s0 \<and>
          x = length (functionList s0) \<and> x < length (functionList s')"
          using run [folded runs_def] False inner
          unfolding genES5Function.simps [of origName lca functionNode isGeneratorInnerFunction]
          apply simp
          apply (erule runs_bindE)
          apply (erule runs_thenE)
          apply (erule runs_thenE)
          subgoal premises prems for f sA u s1 u' z
            apply (rule main [OF wf0])
                apply (rule prems)
               apply (rule prems)
              apply (rule prems)
            using prems apply (auto simp: createFunction_def makeFunction_def) [1]
            apply (rule chainS pro chainP chainKx valid_then | rule closedK "4.IH"(3) [OF False])+
            done
          done
      qed
    qed
  qed
next
  case (5 origName lca functionNode)
  note pro = valid_then [OF phaseKx_enter [OF "5.IH"(2) [rule_format]]]
  show ?case
  proof (rule driverI)
    fix s0 x s' assume wf0: "wfState s0"
      and run: "genGeneratorFunction origName lca functionNode s0 = Inr (x, s')"
    let ?N = "length (functionList s0)"
    show "frame {} {} (length (functionList s0)) s0 s' \<and>
      insertionBlock s' = insertionBlock s0 \<and>
      entryTerminators s' = entryTerminators s0 \<and>
      x = length (functionList s0) \<and> x < length (functionList s')"
      using run [folded runs_def]
      unfolding genGeneratorFunction.simps [of origName lca functionNode]
      apply -
      apply (erule runs_bindE)
      apply (erule runs_bindE)
      apply (erule runs_bindE)
      apply (erule runs_thenE)
      subgoal premises prems for outerFn s1 innerName s2 innerFn s3 u z
      proof -
        from prems(1) obtain fn where o: "outerFn = ?N"
          and s1: "s1 = s0\<lparr>functionList := functionList s0 @ [fn]\<rparr>"
          by (auto simp: createGeneratorFunction_def makeFunction_def)
        note c = created_frame [OF wf0 s1]
        note a = anon_frame(1) [OF c(1) prems(2), of ?N] anon_frame(2-4) [OF c(1) prems(2)]
        note d = driverD [OF "5.IH"(1) frameD(1) [OF a(1)] prems(3)]
        have wf3: "wfState s3" by (rule frameD(1) [OF d(1)])
        have l2: "length (functionList s2) = Suc ?N" by (simp add: a(4) s1)
        have N3: "?N \<le> length (functionList s3)"
          using frameD(3) [OF d(1)] l2 by simp
        note ph = bracket_enter [OF wf3 N3 prems(4), of "{}"]
        from prems(4) have flz: "functionList z = functionList s3"
          by (auto simp: FunctionContext_ctor_def modifyR_def)
        have Nle: "?N \<le> innerFn" using d(4) l2 by simp
        have ilt: "innerFn < length (functionList z)" using d(5) flz by simp
        note gen = valid_bind [OF phaseKx_same [OF gen_phaseK [OF Nle ilt]]]
        have "x = outerFn \<and> exited z {} outerFn ?N s'"
          apply (rule runs_valid [where P = "phaseD z {} outerFn ?N" and
                Q = "\<lambda>x s'. x = outerFn \<and> exited z {} outerFn ?N s'", OF prems(5) ph])
          apply (rule chainS pro gen chainP chainKx valid_then | rule closedK)+
          done
        then have xo: "x = outerFn" and ex: "exited z {} outerFn ?N s'" by simp_all
        note b = bracket_exit [OF wf3 prems(4) ex]
        from frame_trans [OF c(2) a(1)] have f02: "frame {} {} ?N s0 s2" by simp
        from frame_trans [OF f02 d(1)] l2 have f03: "frame {} {} ?N s0 s3" by simp
        from frame_trans [OF f03 b(1)] o have fr: "frame {} {} ?N s0 s'" by simp
        have "length (functionList s3) \<le> length (functionList s')"
          by (rule frameD(3) [OF b(1)])
        with fr b(2,3) d(2,3,4,5) a(2,3) xo o l2 show ?thesis
          by (simp add: s1 entryTerminators_def)
      qed
      done
  qed
next
  case (6 funcNode entry)
  have "valid (phaseE z L F N entry) (emitFunctionPrologue funcNode entry)
     (\<lambda>_. phaseK z L F N entry)" for z L F N
    unfolding emitFunctionPrologue.simps [of funcNode entry]
    apply (rule prologue_start)
    apply (rule chainP, rule keeps_hoist)
    apply (rule chainP, rule keeps_declareClosures)
    apply (rule valid_then [OF emitParameters_phaseP])
    apply (rule chainP, rule "6.IH")
    apply (rule prologue_tail_phase, assumption)
    done
  then show ?case by blast
next
  case 7
  show ?case by (simp add: keeps_intros)
next
  case (8 funcDecl rest)
  then show ?case by (auto intro!: keeps_intros)
next
  case (9 FE nameHint)
  then show ?case by (auto intro!: keeps_intros)
next
  case (10 AF nameHint)
  then show ?case by (auto intro!: keeps_intros)
next
  case (11 n)
  show ?case by (auto intro!: keeps_intros)
next
  case 12
  show ?case by (simp add: keeps_intros)
next
  case (13 st rest)
  then show ?case by (auto intro!: keeps_intros)
qed

subsection \<open>Failures on the entry terminator\<close>

lemma bindR_InlE:
  assumes "bindR m f s = Inl e"
  obtains "m s = Inl e" | x s' where "m s = Inr (x, s')" and "f x s' = Inl e"
  using assms by (auto simp: bindR_def split: sum.splits)

lemma thenR_InlE:
  assumes "thenR m k s = Inl e"
  obtains "m s = Inl e" | x s' where "m s = Inr (x, s')" and "k s' = Inl e"
  using assms unfolding thenR_def by (rule bindR_InlE)

lemma fails_bindE:
  assumes "fails (bindR m f) s e"
  obtains "m s = Inl e" | x s' where "m s = Inr (x, s')" and "fails (f x) s' e"
  using assms unfolding fails_def by (rule bindR_InlE)

lemma fails_thenE:
  assumes "fails (thenR m k) s e"
  obtains "m s = Inl e" | x s' where "m s = Inr (x, s')" and "fails k s' e"
  using assms unfolding fails_def by (rule thenR_InlE)

lemma quietI: "(\<And>s e. m s = Inl e \<Longrightarrow> \<not> terminatorError e) \<Longrightarrow> quiet m"
  by (simp add: quiet_def)

lemma quietD: "quiet m \<Longrightarrow> m s = Inl e \<Longrightarrow> \<not> terminatorError e"
  by (simp add: quiet_def)

lemma soundI: "(\<And>s e. P s \<Longrightarrow> m s = Inl e \<Longrightarrow> \<not> terminatorError e) \<Longrightarrow> sound P m"
  by (simp add: sound_def)

lemma soundD: "sound P m \<Longrightarrow> P s \<Longrightarrow> m s = Inl e \<Longrightarrow> \<not> terminatorError e"
  by (simp add: sound_def)

lemma fails_sound: "fails m s e \<Longrightarrow> P s \<Longrightarrow> sound P m \<Longrightarrow> \<not> terminatorError e"
  unfolding fails_def sound_def by blast

lemma quiet_sound: "quiet m \<Longrightarrow> sound P m"
  by (simp add: quiet_def sound_def)

lemma sound_pre: "sound P' m \<Longrightarrow> (\<And>s. P s \<Longrightarrow> P' s) \<Longrightarrow> sound P m"
  unfolding sound_def by blast

lemma sound_bind:
  assumes "sound P m" and "valid P m Q" and "\<And>x. sound (Q x) (f x)"
  shows "sound P (bindR m f)"
proof (rule soundI)
  fix s e assume P: "P s" and f: "bindR m f s = Inl e"
  from f show "\<not> terminatorError e"
  proof (rule bindR_InlE)
    assume "m s = Inl e"
    with assms(1) P show ?thesis by (rule soundD)
  next
    fix x s' assume r: "m s = Inr (x, s')" "f x s' = Inl e"
    from validD [OF assms(2) P r(1)] have "Q x s'" .
    with assms(3) show ?thesis using r(2) by (rule soundD)
  qed
qed

lemma sound_then:
  assumes "sound P m" and "valid P m (\<lambda>_. Q)" and "sound Q k"
  shows "sound P (thenR m k)"
  unfolding thenR_def using assms by (rule sound_bind)

lemma sound_if: "(c \<Longrightarrow> sound P a) \<Longrightarrow> (\<not> c \<Longrightarrow> sound P b) \<Longrightarrow> sound P (if c then a else b)"
  by simp

lemma sound_case_prod: "(\<And>a b. sound P (f a b)) \<Longrightarrow> sound P (case_prod f x)"
  by (cases x) simp

lemma quiet_bind: "quiet m \<Longrightarrow> (\<And>x. quiet (f x)) \<Longrightarrow> quiet (bindR m f)"
  unfolding quiet_def by (auto simp: bindR_def split: sum.splits)

lemma quiet_then: "quiet m \<Longrightarrow> quiet k \<Longrightarrow> quiet (thenR m k)"
  unfolding thenR_def by (rule quiet_bind)

lemma quiet_ok: "quiet (okR x)"
  by (simp add: quiet_def okR_def)

lemma quiet_fail: "\<not> terminatorError e \<Longrightarrow> quiet (failR e)"
  by (simp add: quiet_def failR_def)

lemma quiet_if: "(c \<Longrightarrow> quiet a) \<Longrightarrow> (\<not> c \<Longrightarrow> quiet b) \<Longrightarrow> quiet (if c then a else b)"
  by simp

lemma quiet_total: "(\<And>s. \<exists>r. m s = Inr r) \<Longrightarrow> quiet m"
  unfolding quiet_def by (metis Inl_Inr_False)

named_theorems quiet_intros

lemmas [quiet_intros] = quiet_bind quiet_then quiet_ok quiet_if

lemma quiet_errors [simp]:
  "\<not> terminatorError NoInsertionPoint"
  "\<not> terminatorError (AssertionFailure msg)"
  "\<not> terminatorError (NullDereference ''thisParameter'')"
  "\<not> terminatorError (NullDereference ''functionContext'')"
  "\<not> terminatorError (NullDereference ''curFunction'')"
  "\<not> terminatorError (NullDereference ''getPreviousContext'')"
  "\<not> terminatorError (NullDereference ''getSemInfo'')"
  by (simp_all add: terminatorError_def)

lemma quiet_prims [quiet_intros]:
  "quiet (makeFunction n dk vk st rg gl)"
  "quiet (createFunction n dk st rg gl)"
  "quiet (createGeneratorFunction n dk st)"
  "quiet (createGeneratorInnerFunction n dk st rg)"
  "quiet (modifyR g)"
  "quiet saveCurrentScope"
  "quiet (createParameter f nm)"
  "quiet (createBasicBlock f)"
  "quiet (createVariable f nm)"
  "quiet (setInsertionBlock b)"
  "quiet (setLocation l)"
  "quiet (insertInst i)"
  "quiet getFunction"
  "quiet (getThisParameter f)"
  "quiet (getFunctionRec f)"
  "quiet (lookupName nm)"
  "quiet (insertName nm v)"
  "quiet (insertIntoScope sc nm v)"
  "quiet pushScope"
  "quiet popScope"
  "quiet (getNameFieldFromID idn)"
  "quiet curFunction"
  "quiet (updCurFunction h)"
  "quiet getPreviousContext"
  "quiet (createGlobalObjectProperty nm d)"
  "quiet (FunctionContext_ctor f si)"
  "quiet FunctionContext_dtor"
  by (rule quietI;
      auto simp: monad_defs builder_defs saveCurrentScope_def lookupName_def insertName_def
        insertIntoScope_def pushScope_def popScope_def getNameFieldFromID_def
        curFunction_def updCurFunction_def getPreviousContext_def Let_def
        createGeneratorFunction_def createGeneratorInnerFunction_def
        FunctionContext_ctor_def FunctionContext_dtor_def
      split: option.splits list.splits if_splits sum.splits)+

lemma quiet_anon [quiet_intros]: "quiet (genAnonymousLabelName hint)"
  unfolding genAnonymousLabelName_def by (intro quiet_intros)

lemma quiet_extern [quiet_intros]:
  "quiet (emitStore v p)"
  "quiet (emitLoad v)"
  "quiet (genResumeGenerator v b)"
  "quiet (genHermesInternalCall n v vs)"
  "quiet (lrefEmitStore t v)"
  "quiet (emitOptionalInitialization v i)"
  unfolding emitStore_def emitLoad_def genResumeGenerator_def genHermesInternalCall_def
    lrefEmitStore_def emitOptionalInitialization_def
  by (auto intro!: quiet_intros quiet_fail split: Value.splits option.splits)

lemma quiet_declare [quiet_intros]: "quiet (declareVariableOrGlobalProperty f n)"
  by (rule quietI)
    (auto simp: declareVariableOrGlobalProperty_def monad_defs builder_defs lookupName_def
      insertName_def Let_def
      split: option.splits list.splits if_splits sum.splits Value.splits)

lemma quiet_lazyParams [quiet_intros]: "quiet (lazyParams f ps)"
  by (induction ps) (auto intro!: quiet_intros quiet_fail split: Node.splits)

lemma quiet_hoist [quiet_intros]: "quiet (hoistVarDecls f ns)"
  by (induction ns) (auto intro!: quiet_intros split: Value.splits)

lemma quiet_declareClosures [quiet_intros]: "quiet (declareClosures f cs)"
  by (induction cs) (auto intro!: quiet_intros)

lemma quiet_declareParamNames [quiet_intros]: "quiet (declareParamNames f ns)"
  by (induction ns) (auto intro!: quiet_intros)

lemma quiet_emitFormal [quiet_intros]: "quiet (emitFormal f elem)"
  unfolding emitFormal_def
  by (auto intro!: quiet_intros simp: Let_def split: Node.splits prod.splits)

lemma quiet_emitParamLoop [quiet_intros]: "quiet (emitParamLoop f ps idx)"
  by (induction ps arbitrary: idx) (auto intro!: quiet_intros simp: Let_def split: Node.splits)

lemma quiet_emitParameters [quiet_intros]: "quiet (emitParameters n)"
  unfolding emitParameters_def by (auto intro!: quiet_intros simp: Let_def)

lemma quiet_initCapture [quiet_intros]: "quiet initCaptureStateInES5Function"
  unfolding initCaptureStateInES5Function_def
  by (auto intro!: quiet_intros quiet_fail simp: Let_def split: option.splits)


subsection \<open>Failures inside the phases of a function\<close>

lemma keeps_wf: "keeps LF m \<Longrightarrow> valid wfState m (\<lambda>_. wfState)"
  by (rule validI) (auto dest: keepsD ext_wf)

lemma soundW_bind:
  assumes "sound wfState m" and "keeps LF m" and "\<And>x. sound wfState (f x)"
  shows "sound wfState (bindR m f)"
  using assms(1) keeps_wf [OF assms(2)] assms(3) by (rule sound_bind)

lemma soundW_then:
  assumes "sound wfState m" and "keeps LF m" and "sound wfState k"
  shows "sound wfState (thenR m k)"
  using assms(1) keeps_wf [OF assms(2)] assms(3) by (rule sound_then)

lemma sound_phases:
  assumes "sound wfState m"
  shows "sound (phaseD z L F N) m" and "sound (phaseE z L F N e) m"
    and "sound (phaseP z L F N e) m" and "sound (phaseKx z L F N) m"
  by (rule sound_pre [OF assms];
      auto simp: phaseD_def phaseE_def phaseP_def phaseKx_def phaseK_def frame_def)+

lemma return_sets_location:
  "keeps {} (bindR getFunction (\<lambda>f.
            bindR (getFunctionRec f) (\<lambda>fn.
            thenR (setLocation (convertEndToLocation (fnSourceRange fn)))
           (thenR (insertInst (ReturnInst v)) (okR ())))))"
  "quiet (bindR getFunction (\<lambda>f.
            bindR (getFunctionRec f) (\<lambda>fn.
            thenR (setLocation (convertEndToLocation (fnSourceRange fn)))
           (thenR (insertInst (ReturnInst v)) (okR ())))))"
  by (intro keeps_intros quiet_intros; simp)+

lemma epilogue_sound: "sound (phaseKx z L F N) (emitFunctionEpilogue rv)"
proof (rule soundI)
  fix s e assume "phaseKx z L F N s" and f: "emitFunctionEpilogue rv s = Inl e"
  then obtain eb where p: "phaseK z L F N eb s" unfolding phaseKx_def by blast
  have none: "emitFunctionEpilogue None s' \<noteq> Inl e'" if "phaseK z L F N eb s'" for s' e'
  proof -
    from that obtain t nb where "wfState s'" "atTerminator F t eb nb s'"
      unfolding phaseK_def frame_def by blast
    from epilogue_closed [OF this] show ?thesis by simp
  qed
  show "\<not> terminatorError e"
  proof (cases rv)
    case None
    with f none [OF p, of e] show ?thesis by simp
  next
    case (Some v)
    from f [unfolded Some epilogue_Some] show ?thesis
    proof (rule thenR_InlE)
      assume "bindR getFunction (\<lambda>f.
            bindR (getFunctionRec f) (\<lambda>fn.
            thenR (setLocation (convertEndToLocation (fnSourceRange fn)))
           (thenR (insertInst (ReturnInst v)) (okR ())))) s = Inl e"
      with return_sets_location(2) show ?thesis by (rule quietD)
    next
      fix x s1 assume r: "bindR getFunction (\<lambda>f.
            bindR (getFunctionRec f) (\<lambda>fn.
            thenR (setLocation (convertEndToLocation (fnSourceRange fn)))
           (thenR (insertInst (ReturnInst v)) (okR ())))) s = Inr (x, s1)"
        and f1: "emitFunctionEpilogue None s1 = Inl e"
      from validD [OF keeps_phaseK [OF return_sets_location(1)] p r]
      have "phaseK z L F N eb s1" by simp
      from none [OF this, of e] f1 show ?thesis by simp
    qed
  qed
qed

lemma prologue_start_sound:
  assumes "\<And>c si fn. ctxFunction c = F \<Longrightarrow> sound (phaseP z L F N entry) (k c si fn)"
  shows "sound (phaseE z L F N entry)
     (bindR curFunction (\<lambda>c.
      bindR (case ctxSemInfo c of
               None \<Rightarrow> failR (NullDereference ''getSemInfo'')
             | Some si \<Rightarrow> okR si) (\<lambda>si.
      bindR (getFunctionRec (ctxFunction c)) (\<lambda>fn.
      thenR (setLocation (fst (fnSourceRange fn)))
     (thenR (setInsertionBlock entry) (k c si fn))))))"
proof (rule soundI)
  fix s e assume p: "phaseE z L F N entry s"
    and run: "bindR curFunction (\<lambda>c.
      bindR (case ctxSemInfo c of
               None \<Rightarrow> failR (NullDereference ''getSemInfo'')
             | Some si \<Rightarrow> okR si) (\<lambda>si.
      bindR (getFunctionRec (ctxFunction c)) (\<lambda>fn.
      thenR (setLocation (fst (fnSourceRange fn)))
     (thenR (setInsertionBlock entry) (k c si fn))))) s = Inl e"
  from p have wf: "wfState s" and el: "entry < length (blocks s)"
    by (simp_all add: phaseE_def phaseD_def frame_def)
  from p obtain c cs where stack: "functionContext s = c # cs" "ctxFunction c = F"
    by (auto simp: phaseE_def phaseD_def curIs_def)
  from run stack consider "e = NullDereference ''getSemInfo''"
    | si fn l where "k c si fn (s\<lparr>location := l, insertionBlock := Some entry\<rparr>) = Inl e"
    by (auto simp: bindR_def thenR_def curFunction_def okR_def failR_def getFunctionRec_def
        setLocation_def setInsertionBlock_def modifyR_def split: option.splits)
  then show "\<not> terminatorError e"
  proof cases
    case 1
    then show ?thesis by simp
  next
    case (2 si fn l)
    have "phaseE z L F N entry (s\<lparr>location := l\<rparr>)"
      using p frame_fields(1) [OF wf el] by (rule phaseE_step) simp_all
    from validD [OF setInsertionBlock_phaseE this, of "()" "s\<lparr>location := l, insertionBlock := Some entry\<rparr>"]
    have "phaseP z L F N entry (s\<lparr>location := l, insertionBlock := Some entry\<rparr>)"
      by (simp add: setInsertionBlock_def modifyR_def)
    from soundD [OF assms [OF stack(2)] this 2] show ?thesis .
  qed
qed


subsection \<open>The lowering never fails on the entry terminator\<close>

lemmas vpro = phaseKx_enter [OF lowering_frame(6) [rule_format]]
lemmas vchain = chainS valid_then [OF vpro] vpro chainP chainKx valid_then
lemmas schainS = sound_bind [OF _ createBasicBlock_phaseD] sound_then [OF _ setInsertionBlock_phaseE]
  sound_bind [OF _ createBasicBlock_phaseP] sound_then [OF _ resume_phase]
  sound_then [OF epilogue_sound phaseKx_leave [OF epilogue_phase]]
lemmas schainP = sound_bind [OF _ liftP] sound_then [OF _ liftP]
lemmas schainK = sound_bind [OF _ liftK] sound_then [OF _ liftK]
lemmas framed = lowering_frame(7,8,9) closedK

lemma bracket_sound:
  assumes wf0: "wfState s0"
    and s1: "s1 = s0\<lparr>functionList := functionList s0 @ [fn]\<rparr>"
    and ctor: "FunctionContext_ctor f si s1 = Inr (u, z)"
    and rest: "fails k z e"
    and ch: "sound (phaseD z {} f (length (functionList s0))) k"
  shows "\<not> terminatorError e"
proof -
  note c = created_frame [OF wf0 s1]
  have N1: "length (functionList s0) \<le> length (functionList s1)" by (simp add: s1)
  note ph = bracket_enter [OF c(1) N1 ctor, of "{}"]
  from rest ph ch show ?thesis by (rule fails_sound)
qed

lemma lowering_sound:
  "sound wfState (genFunctionDeclaration func)"
  "sound wfState (genFunctionExpression FE nameHint)"
  "sound wfState (genArrowFunctionExpression AF nameHint2)"
  "sound wfState (genES5Function origName lca functionNode isInner)"
  "sound wfState (genGeneratorFunction origName2 lca2 functionNode2)"
  "\<forall>z L F N. sound (phaseE z L F N entry) (emitFunctionPrologue funcNode entry)"
  "sound wfState (genClosures cs)"
  "sound wfState (genStatement st)"
  "sound wfState (genBody sts)"
proof (induction func and FE nameHint and AF nameHint2 and origName lca functionNode isInner
    and origName2 lca2 functionNode2 and funcNode entry and cs and st and sts
    rule: lowering_induct)
  case (1 func)
  show ?case
    unfolding genFunctionDeclaration.simps [of func]
    apply (rule soundW_bind [where LF = "{}"] soundW_then [where LF = "{}"] sound_if
        | rule "1.IH" | assumption
        | (rule quiet_sound, (auto intro!: quiet_intros quiet_fail split: option.splits) [1])
        | (auto intro!: keeps_intros driver_keeps lowering_frame(4,5) split: option.splits) [1])+
    done
next
  case (2 FE nameHint)
  show ?case
    unfolding genFunctionExpression.simps [of FE nameHint]
    apply (rule soundW_bind [where LF = "{}"] soundW_then [where LF = "{}"] sound_if sound_case_prod
        | rule "2.IH" | assumption
        | (rule quiet_sound, (auto intro!: quiet_intros quiet_fail split: option.splits) [1])
        | (auto intro!: keeps_intros driver_keeps lowering_frame(4,5) split: option.splits) [1])+
    done
next
  case (3 AF nameHint)
  note spro = sound_then [OF "3.IH"(1) [rule_format] vpro]
  show ?case
  proof (rule soundI)
    fix s0 e assume wf0: "wfState s0"
      and f: "genArrowFunctionExpression AF nameHint s0 = Inl e"
    from f have "fails (genArrowFunctionExpression AF nameHint) s0 e"
      by (simp add: fails_def)
    then show "\<not> terminatorError e"
      unfolding genArrowFunctionExpression.simps [of AF nameHint]
      apply -
      apply (erule fails_bindE)
       apply (simp add: createFunction_def makeFunction_def)
      apply (erule fails_thenE)
       apply (simp add: FunctionContext_ctor_def modifyR_def)
      subgoal premises prems for f s1 u z
        apply (rule bracket_sound [OF wf0 _ prems(2) prems(3)])
        using prems(1) apply (auto simp: createFunction_def makeFunction_def) [1]
        apply (rule schainS spro schainP schainK | rule framed | rule sound_phases [OF "3.IH"(2)]
            | (rule quiet_sound, (intro quiet_intros) [1]))+
        done
      done
  qed
next
  case (4 origName lca functionNode isGeneratorInnerFunction)
  show ?case
  proof (cases "isLazyFunctionBody (attrs functionNode)")
    case True
    have "quiet (genES5Function origName lca functionNode isGeneratorInnerFunction)"
      unfolding genES5Function.simps [of origName lca functionNode isGeneratorInnerFunction]
      using True by (auto intro!: quiet_intros)
    then show ?thesis by (rule quiet_sound)
  next
    case False
    have main: "\<not> terminatorError e"
      if wf0: "wfState s0"
        and upd: "modifyR (updFunction f (\<lambda>fn. fn\<lparr>lazyClosureAlias := lca\<rparr>)) sA = Inr (u, s1)"
        and ctor: "FunctionContext_ctor f si s1 = Inr (u', z)"
        and rest: "fails k z e"
        and sA: "\<exists>fn. sA = s0\<lparr>functionList := functionList s0 @ [fn]\<rparr> \<and> f = length (functionList s0)"
        and ch: "sound (phaseD z {} f (length (functionList s0))) k"
      for s0 e f sA u s1 si u' z and k :: "nat irgen"
    proof -
      from sA upd obtain fn where s1: "s1 = s0\<lparr>functionList := functionList s0 @ [fn]\<rparr>"
        by (auto simp: modifyR_def updFunction_def)
      from wf0 s1 ctor rest ch show ?thesis by (rule bracket_sound)
    qed
    show ?thesis
    proof (cases isGeneratorInnerFunction)
      case True
      note spro = sound_then [OF "4.IH"(1) [OF False True, rule_format] vpro]
        "4.IH"(1) [OF False True, rule_format]
      show ?thesis
      proof (rule soundI)
        fix s0 e assume wf0: "wfState s0"
          and f: "genES5Function origName lca functionNode isGeneratorInnerFunction s0 = Inl e"
        show "\<not> terminatorError e"
          using f [folded fails_def] False True
          unfolding genES5Function.simps [of origName lca functionNode isGeneratorInnerFunction]
          apply simp
          apply (erule fails_bindE)
           apply (simp add: createGeneratorInnerFunction_def makeFunction_def)
          apply (erule fails_thenE)
           apply (simp add: modifyR_def)
          apply (erule fails_thenE)
           apply (simp add: FunctionContext_ctor_def modifyR_def)
          subgoal premises prems for f sA u s1 u' z
            apply (rule main [OF wf0])
                apply (rule prems)
               apply (rule prems)
              apply (rule prems)
            using prems apply (auto simp: createGeneratorInnerFunction_def makeFunction_def) [1]
            apply (rule schainS spro schainP schainK sound_then | rule vchain
                | rule framed | rule sound_phases [OF "4.IH"(3) [OF False]]
                | (rule quiet_sound, (intro quiet_intros) [1]))+
            done
          done
      qed
    next
      case inner: False
      note spro = sound_then [OF "4.IH"(2) [OF False inner, rule_format] vpro]
        "4.IH"(2) [OF False inner, rule_format]
      show ?thesis
      proof (rule soundI)
        fix s0 e assume wf0: "wfState s0"
          and f: "genES5Function origName lca functionNode isGeneratorInnerFunction s0 = Inl e"
        show "\<not> terminatorError e"
          using f [folded fails_def] False inner
          unfolding genES5Function.simps [of origName lca functionNode isGeneratorInnerFunction]
          apply simp
          apply (erule fails_bindE)
           apply (simp add: createFunction_def makeFunction_def)
          apply (erule fails_thenE)
           apply (simp add: modifyR_def)
          apply (erule fails_thenE)
           apply (simp add: FunctionContext_ctor_def modifyR_def)
          subgoal premises prems for f sA u s1 u' z
            apply (rule main [OF wf0])
                apply (rule prems)
               apply (rule prems)
              apply (rule prems)
            using prems apply (auto simp: createFunction_def makeFunction_def) [1]
            apply (rule schainS spro schainP schainK sound_then | rule vchain
                | rule framed | rule sound_phases [OF "4.IH"(3) [OF False]]
                | (rule quiet_sound, (intro quiet_intros) [1]))+
            done
          done
      qed
    qed
  qed
next
  case (5 origName lca functionNode)
  note spro = sound_then [OF "5.IH"(2) [rule_format] vpro]
  show ?case
  proof (rule soundI)
    fix s0 e assume wf0: "wfState s0"
      and f: "genGeneratorFunction origName lca functionNode s0 = Inl e"
    let ?N = "length (functionList s0)"
    have pre: "wfState s2 \<and> length (functionList s2) = Suc ?N \<and> outerFn = ?N"
      if "createGeneratorFunction origName ES5Function (strictness (attrs functionNode)) s0 =
            Inr (outerFn, s1)"
        and "genAnonymousLabelName h s1 = Inr (nm, s2)"
      for outerFn s1 h nm s2
    proof -
      from that(1) obtain fn where o: "outerFn = ?N"
        and s1: "s1 = s0\<lparr>functionList := functionList s0 @ [fn]\<rparr>"
        by (auto simp: createGeneratorFunction_def makeFunction_def)
      note c = created_frame [OF wf0 s1]
      note a = anon_frame(1) [OF c(1) that(2), of ?N] anon_frame(2-4) [OF c(1) that(2)]
      from frameD(1) [OF a(1)] a(4) o show ?thesis by (simp add: s1)
    qed
    show "\<not> terminatorError e"
      using f [folded fails_def]
      unfolding genGeneratorFunction.simps [of origName lca functionNode]
      apply -
      apply (erule fails_bindE)
       apply (simp add: createGeneratorFunction_def makeFunction_def)
      apply (erule fails_bindE)
       apply (erule quietD [OF quiet_anon])
      apply (erule fails_bindE)
      subgoal premises prems for outerFn s1 innerName s2
        using soundD [OF "5.IH"(1) pre [OF prems(1,2), THEN conjunct1] prems(3)] .
      apply (erule fails_thenE)
       apply (simp add: FunctionContext_ctor_def modifyR_def)
      subgoal premises prems for outerFn s1 innerName s2 innerFn s3 u z
      proof -
        note p = pre [OF prems(1,2)]
        from p have wf2: "wfState s2" and l2: "length (functionList s2) = Suc ?N"
          and o: "outerFn = ?N" by simp_all
        note d = driverD [OF lowering_frame(4) wf2 prems(3)]
        have wf3: "wfState s3" by (rule frameD(1) [OF d(1)])
        have N3: "?N \<le> length (functionList s3)"
          using frameD(3) [OF d(1)] l2 by simp
        note ph = bracket_enter [OF wf3 N3 prems(4), of "{}"]
        from prems(4) have flz: "functionList z = functionList s3"
          by (auto simp: FunctionContext_ctor_def modifyR_def)
        have Nle: "?N \<le> innerFn" using d(4) l2 by simp
        have ilt: "innerFn < length (functionList z)" using d(5) flz by simp
        note gen = sound_bind [OF _ phaseKx_same [OF gen_phaseK [OF Nle ilt]]]
        show ?thesis
          apply (rule fails_sound [where P = "phaseD z {} outerFn ?N", OF prems(5) ph])
          apply (rule schainS spro gen schainP schainK | rule framed
              | (rule quiet_sound, (intro quiet_intros) [1]))+
          done
      qed
      done
  qed
next
  case (6 funcNode entry)
  have "sound (phaseE z L F N entry) (emitFunctionPrologue funcNode entry)" for z L F N
    unfolding emitFunctionPrologue.simps [of funcNode entry]
    apply (rule prologue_start_sound)
    apply (rule schainP, rule quiet_sound, rule quiet_hoist, rule keeps_hoist)
    apply (rule schainP, rule quiet_sound, rule quiet_declareClosures, rule keeps_declareClosures)
    apply (rule sound_then [OF _ emitParameters_phaseP], rule quiet_sound, rule quiet_emitParameters)
    apply (rule schainP, rule sound_phases [OF "6.IH"], rule lowering_frame(7))
    apply (rule quiet_sound, (intro quiet_intros) [1])
    done
  then show ?case by blast
next
  case 7
  show ?case by (simp add: quiet_sound quiet_ok)
next
  case (8 funcDecl rest)
  then show ?case by (auto intro!: soundW_then [where LF = "{}"] lowering_frame(1))
next
  case (9 FE nameHint)
  show ?case
    using soundW_then [OF "9.IH" lowering_frame(2) quiet_sound [OF quiet_ok]] by simp
next
  case (10 AF nameHint)
  show ?case
    using soundW_then [OF "10.IH" lowering_frame(3) quiet_sound [OF quiet_ok]] by simp
next
  case (11 n)
  show ?case by (auto intro!: quiet_sound quiet_intros)
next
  case 12
  show ?case by (simp add: quiet_sound quiet_ok)
next
  case (13 st rest)
  then show ?case by (auto intro!: soundW_then [where LF = "{}"] lowering_frame(8))
qed

subsection \<open>The entry terminator at the epilogue\<close>

lemmas epilogue_defs = emitFunctionEpilogue_def mergeEntryAndNextBlock_def
  moveFirstBefore_def eraseInst_def eraseBlock_def getInst_def getNumUsers_def hasUser_def
  instBlock_def allInsts_def updBlock_def convertEndToLocation_def

lemma sample_run:
  "\<exists>f s'. genES5Function (Some ''f'') None sampleFunction False topLevelState = Inr (f, s')"
  "\<exists>f s'. genArrowFunctionExpression plainArrow None topLevelState = Inr (f, s')"
  "\<exists>f s'. genGeneratorFunction (Some ''f'') None sampleFunction topLevelState = Inr (f, s')"
  by (simp_all add: sampleFunction_def plainArrow_def eval_defs genES5Function.simps
      genArrowFunctionExpression.simps genGeneratorFunction.simps epilogue_defs
      initCaptureStateInES5Function_def genAnonymousLabelName_def genResumeGenerator_def
      createGeneratorFunction_def createGeneratorInnerFunction_def)

lemma prologue_terminator:
  assumes wf: "wfState s" and cur: "curIs F s" and e: "entry < length (blocks s)"
    and par: "bbParent (blocks s ! entry) = F"
    and run: "emitFunctionPrologue funcNode entry s = Inr (u, s')"
  shows "\<exists>t nb. atTerminator F t entry nb s' \<and> wfState s'"
proof -
  have "phaseE s {entry} F (length (functionList s)) entry s"
    using wf cur e par by (simp add: phaseE_def phaseD_def frame_refl)
  from validD [OF lowering_frame(6) [rule_format] this run]
  show ?thesis
    unfolding phaseK_def frame_def by blast
qed

lemma keeps_terminator:
  assumes "keeps LF m" and "wfState s" and "atTerminator F t eb nb s" and "m s = Inr (u, s')"
  shows "atTerminator F t eb nb s' \<and> wfState s'"
proof -
  from keepsD [OF assms(1,2,4)] have "ext LF s s'" .
  from ext_atTerminator [OF this assms(3)] ext_wf [OF this] show ?thesis by simp
qed

lemma epilogue_total:
  assumes wf: "wfState s" and k: "atTerminator F t eb nb s"
  shows "getInst t s = Inr (BranchInst nb, s)" and "\<exists>s'. emitFunctionEpilogue rv s = Inr ((), s')"
proof -
  note ta = atTerminator_termAt [OF wf k]
  show "getInst t s = Inr (BranchInst nb, s)"
    using termAt_getInst [OF ta] by (simp add: getInst_def)
  show "\<exists>s'. emitFunctionEpilogue rv s = Inr ((), s')"
  proof (cases rv)
    case None
    with epilogue_closed [OF wf k] show ?thesis by simp
  next
    case (Some v)
    let ?ret = "bindR getFunction (\<lambda>f.
            bindR (getFunctionRec f) (\<lambda>fn.
            thenR (setLocation (convertEndToLocation (fnSourceRange fn)))
           (thenR (insertInst (ReturnInst v)) (okR ()))))"
    from k have "insertionBlock s = Some nb" unfolding atTerminator_def by blast
    then obtain s1 where r: "?ret s = Inr ((), s1)"
      by (simp add: monad_defs builder_defs)
    from keeps_terminator [OF return_sets_location(1) wf k r]
    have "atTerminator F t eb nb s1" "wfState s1" by simp_all
    from epilogue_closed [OF this(2,1)] r show ?thesis
      by (simp add: Some epilogue_Some thenR_def bindR_def)
  qed
qed

lemma sound_result:
  assumes "sound wfState m" and "keeps LF m" and "wfState s"
  shows "case m s of Inl e \<Rightarrow> \<not> terminatorError e | Inr (x, s') \<Rightarrow> wfState s'"
  using soundD [OF assms(1,3)] keepsD [OF assms(2,3)]
  by (auto split: sum.splits dest: ext_wf)

text \<open>
  C10.  The epilogue reads the entry terminator of the current context, takes its only
  successor as \<open>nextBlock\<close> and dereferences it.  In every state with well-formed
  instructions, identified by unique numbers, the lowering of a function, of an arrow
  function and of a generator function never fails on the entry terminator: not
  because none is recorded, nor because no instruction stands under its number, nor
  because it has not exactly one successor, nor in the merge of the next block into the
  entry block.  For the prologue of a function \<open>F\<close> ends in a state in which the
  terminator recorded in the context is the branch at the end of the entry block, into
  a fresh block of \<open>F\<close> that is the insertion block; the capture state and the lowering
  of the body, with every function nested in it, keep that; and in such a state the
  epilogue finds the branch under the recorded number and succeeds.
\<close>

theorem entry_terminator_at_epilogue:
  "(wfState s \<longrightarrow>
      (case genES5Function origName lca functionNode isInner s of
         Inl e \<Rightarrow> \<not> terminatorError e | Inr (f, s') \<Rightarrow> wfState s') \<and>
      (case genArrowFunctionExpression AF nameHint s of
         Inl e \<Rightarrow> \<not> terminatorError e | Inr (v, s') \<Rightarrow> wfState s') \<and>
      (case genGeneratorFunction origName2 lca2 functionNode2 s of
         Inl e \<Rightarrow> \<not> terminatorError e | Inr (f, s') \<Rightarrow> wfState s')) \<and>
   (wfState s \<and> curIs F s \<and> entry < length (blocks s) \<and> bbParent (blocks s ! entry) = F \<and>
    emitFunctionPrologue funcNode entry s = Inr (u, s1) \<longrightarrow>
      (\<exists>t nb. atTerminator F t entry nb s1 \<and> wfState s1)) \<and>
   (wfState s \<and> atTerminator F t eb nb s \<longrightarrow>
      (\<forall>u s'. initCaptureStateInES5Function s = Inr (u, s') \<longrightarrow>
         atTerminator F t eb nb s' \<and> wfState s') \<and>
      (\<forall>sts u s'. genBody sts s = Inr (u, s') \<longrightarrow> atTerminator F t eb nb s' \<and> wfState s') \<and>
      getInst t s = Inr (BranchInst nb, s) \<and>
      (\<exists>s'. emitFunctionEpilogue rv s = Inr ((), s')))"
proof (intro conjI impI allI)
  assume wf: "wfState s"
  show "case genES5Function origName lca functionNode isInner s of
         Inl e \<Rightarrow> \<not> terminatorError e | Inr (f, s') \<Rightarrow> wfState s'"
    by (rule sound_result [OF lowering_sound(4) driver_keeps [OF lowering_frame(4)] wf])
  show "case genArrowFunctionExpression AF nameHint s of
         Inl e \<Rightarrow> \<not> terminatorError e | Inr (v, s') \<Rightarrow> wfState s'"
    by (rule sound_result [OF lowering_sound(3) lowering_frame(3) wf])
  show "case genGeneratorFunction origName2 lca2 functionNode2 s of
         Inl e \<Rightarrow> \<not> terminatorError e | Inr (f, s') \<Rightarrow> wfState s'"
    by (rule sound_result [OF lowering_sound(5) driver_keeps [OF lowering_frame(5)] wf])
next
  assume "wfState s \<and> curIs F s \<and> entry < length (blocks s) \<and> bbParent (blocks s ! entry) = F \<and>
    emitFunctionPrologue funcNode entry s = Inr (u, s1)"
  then have "wfState s" "curIs F s" "entry < length (blocks s)" "bbParent (blocks s ! entry) = F"
    "emitFunctionPrologue funcNode entry s = Inr (u, s1)" by simp_all
  then show "\<exists>t nb. atTerminator F t entry nb s1 \<and> wfState s1"
    by (rule prologue_terminator)
next
  fix u s' assume a: "wfState s \<and> atTerminator F t eb nb s"
    and r: "initCaptureStateInES5Function s = Inr (u, s')"
  from a have "wfState s" "atTerminator F t eb nb s" by simp_all
  from keeps_terminator [OF keeps_initCapture [of "{}"] this r]
  show "atTerminator F t eb nb s'" "wfState s'" by simp_all
next
  fix sts u s' assume a: "wfState s \<and> atTerminator F t eb nb s"
    and r: "genBody sts s = Inr (u, s')"
  from a have "wfState s" "atTerminator F t eb nb s" by simp_all
  from keeps_terminator [OF lowering_frame(9) this r]
  show "atTerminator F t eb nb s'" "wfState s'" by simp_all
next
  assume a: "wfState s \<and> atTerminator F t eb nb s"
  then have "wfState s" "atTerminator F t eb nb s" by simp_all
  from epilogue_total(1) [OF this] epilogue_total(2) [OF this, of rv]
  show "getInst t s = Inr (BranchInst nb, s)" "\<exists>s'. emitFunctionEpilogue rv s = Inr ((), s')"
    by simp_all
qed

lemma sessions_wf:
  "wfState topLevelState" "wfState paramSession" "curIs 1 paramSession"
  "1 < length (blocks paramSession)" "bbParent (blocks paramSession ! 1) = 1"
  by (simp_all add: wfState_def wfInsts_def allInsts_def blockIds_def curIs_def
      paramSession_def eval_defs less_Suc_eq)

lemma sample_phases:
  "\<exists>s1 s2. emitFunctionPrologue sampleFunction 1 paramSession = Inr ((), s1) \<and>
     genBody (body sampleFunction) s1 = Inr ((), s2)"
  by (simp add: paramSession_def sampleFunction_def plainArrow_def eval_defs
      genArrowFunctionExpression.simps epilogue_defs)


text \<open>
  The three lowerings at the top level, and the prologue, the body and the epilogue of
  \<open>function f() { ...; () => {...} }\<close> in the session of its context.
\<close>

theorem entry_terminator_at_epilogue_witness:
  "wfState topLevelState \<and>
   (\<exists>f s'. genES5Function (Some ''f'') None sampleFunction False topLevelState = Inr (f, s') \<and>
      wfState s') \<and>
   (\<exists>v s'. genArrowFunctionExpression plainArrow None topLevelState = Inr (v, s') \<and> wfState s') \<and>
   (\<exists>f s'. genGeneratorFunction (Some ''f'') None sampleFunction topLevelState = Inr (f, s') \<and>
      wfState s') \<and>
   wfState paramSession \<and> curIs 1 paramSession \<and>
   (\<exists>s1 t nb s2 s3.
      emitFunctionPrologue sampleFunction 1 paramSession = Inr ((), s1) \<and>
      atTerminator 1 t 1 nb s1 \<and>
      genBody (body sampleFunction) s1 = Inr ((), s2) \<and>
      atTerminator 1 t 1 nb s2 \<and>
      getInst t s2 = Inr (BranchInst nb, s2) \<and>
      emitFunctionEpilogue (Some LiteralUndefined) s2 = Inr ((), s3))"
proof -
  note wf = sessions_wf(1)
  obtain f1 x1 where r1: "genES5Function (Some ''f'') None sampleFunction False topLevelState = Inr (f1, x1)"
    using sample_run(1) by blast
  obtain f2 x2 where r2: "genArrowFunctionExpression plainArrow None topLevelState = Inr (f2, x2)"
    using sample_run(2) by blast
  obtain f3 x3 where r3: "genGeneratorFunction (Some ''f'') None sampleFunction topLevelState = Inr (f3, x3)"
    using sample_run(3) by blast
  from entry_terminator_at_epilogue [where s = topLevelState and origName = "Some ''f''"
      and lca = None and functionNode = sampleFunction and isInner = False
      and AF = plainArrow and nameHint = None
      and ?origName2.0 = "Some ''f''" and ?lca2.0 = None and ?functionNode2.0 = sampleFunction,
      THEN conjunct1, rule_format, OF wf]
  have d: "wfState x1" "wfState x2" "wfState x3"
    by (simp_all add: r1 r2 r3)
  obtain s1 s2 where p1: "emitFunctionPrologue sampleFunction 1 paramSession = Inr ((), s1)"
    and p2: "genBody (body sampleFunction) s1 = Inr ((), s2)"
    using sample_phases by blast
  from entry_terminator_at_epilogue [where s = paramSession and F = 1 and entry = 1
      and funcNode = sampleFunction and u = "()" and ?s1.0 = s1,
      THEN conjunct2, THEN conjunct1] sessions_wf(2-5) p1
  obtain t nb where k1: "atTerminator 1 t 1 nb s1" "wfState s1"
    by blast
  from entry_terminator_at_epilogue [where s = s1 and F = 1 and t = t and eb = 1 and nb = nb,
      THEN conjunct2, THEN conjunct2] k1 p2
  have k2: "atTerminator 1 t 1 nb s2" "wfState s2"
    by blast+
  from entry_terminator_at_epilogue [where s = s2 and F = 1 and t = t and eb = 1 and nb = nb
      and rv = "Some LiteralUndefined", THEN conjunct2, THEN conjunct2] k2
  obtain s3 where k3: "getInst t s2 = Inr (BranchInst nb, s2)"
    "emitFunctionEpilogue (Some LiteralUndefined) s2 = Inr ((), s3)"
    by blast
  from wf r1 r2 r3 d sessions_wf(2,3) p1 p2 k1 k2 k3 show ?thesis
    by blast
qed

subsection \<open>The first block of a function\<close>

lemma sameBlockLists_refl: "sameBlockLists s s"
  by (simp add: sameBlockLists_def)

lemma sameBlockLists_trans: "sameBlockLists s s1 \<Longrightarrow> sameBlockLists s1 s2 \<Longrightarrow> sameBlockLists s s2"
  by (simp add: sameBlockLists_def)

named_theorems lists_intros

lemma rel_bind_BL [lists_intros]:
  "rel m sameBlockLists \<Longrightarrow> (\<And>x. rel (f x) sameBlockLists) \<Longrightarrow> rel (bindR m f) sameBlockLists"
  by (erule rel_bind_gen [where ?R2.0 = sameBlockLists]) (auto intro: sameBlockLists_trans)

lemma rel_then_BL [lists_intros]:
  "rel m sameBlockLists \<Longrightarrow> rel k sameBlockLists \<Longrightarrow> rel (thenR m k) sameBlockLists"
  by (erule rel_then_gen [where ?R2.0 = sameBlockLists]) (auto intro: sameBlockLists_trans)

lemma rel_ok_BL [lists_intros]: "rel (okR x) sameBlockLists"
  by (rule rel_ok) (rule sameBlockLists_refl)

lemmas [lists_intros] = rel_if rel_fail

lemma update_map_same: "(map g xs)[i := g (xs ! i)] = map g xs"
  by (metis list_update_id map_update)

lemma lists_prims [lists_intros]:
  "rel (createParameter f n) sameBlockLists"
  "rel (createVariable f n) sameBlockLists"
  "rel (insertName n v) sameBlockLists"
  "rel (insertInst i) sameBlockLists"
  "rel curFunction sameBlockLists"
  "rel (updCurFunction g) sameBlockLists"
  by (rule relI;
      auto simp: monad_defs builder_defs insertName_def curFunction_def updCurFunction_def
        sameBlockLists_def map_update update_map_same
      split: option.splits list.splits if_splits sum.splits)+

lemma lists_anon [lists_intros]: "rel (genAnonymousLabelName hint) sameBlockLists"
  unfolding genAnonymousLabelName_def by (intro lists_intros)

lemma lists_extern [lists_intros]:
  "rel (genHermesInternalCall n v vs) sameBlockLists"
  "rel (lrefEmitStore t v) sameBlockLists"
  "rel (emitOptionalInitialization v i) sameBlockLists"
  unfolding genHermesInternalCall_def lrefEmitStore_def emitOptionalInitialization_def
  by (auto intro!: lists_intros split: option.splits)

lemma lists_declareParamNames [lists_intros]: "rel (declareParamNames f ns) sameBlockLists"
  by (induction ns) (auto intro!: lists_intros)

lemma lists_emitFormal [lists_intros]: "rel (emitFormal f elem) sameBlockLists"
  unfolding emitFormal_def
  by (auto intro!: lists_intros simp: Let_def split: Node.splits prod.splits)

lemma lists_emitParamLoop [lists_intros]: "rel (emitParamLoop f ps idx) sameBlockLists"
  by (induction ps arbitrary: idx) (auto intro!: lists_intros simp: Let_def split: Node.splits)

lemma lists_emitParameters: "rel (emitParameters n) sameBlockLists"
  unfolding emitParameters_def
  by (auto intro!: lists_intros simp: Let_def)


















lemma removeAll_head: "x \<noteq> h \<Longrightarrow> removeAll x (h # bs) = h # removeAll x bs"
  by simp


subsection \<open>The first block of the inner function of a generator\<close>








subsection \<open>The outer function of a generator\<close>












subsection \<open>The number of functions\<close>

named_theorems funs_intros

lemma funs_bind [funs_intros]:
  "rel m sameFuns \<Longrightarrow> (\<And>x. rel (f x) sameFuns) \<Longrightarrow> rel (bindR m f) sameFuns"
  by (erule rel_bind_gen [where ?R2.0 = sameFuns]) (auto simp: sameFuns_def)

lemma funs_then [funs_intros]:
  "rel m sameFuns \<Longrightarrow> rel k sameFuns \<Longrightarrow> rel (thenR m k) sameFuns"
  by (erule rel_then_gen [where ?R2.0 = sameFuns]) (auto simp: sameFuns_def)

lemma funs_ok [funs_intros]: "rel (okR x) sameFuns"
  by (rule rel_ok) (simp add: sameFuns_def)

lemmas [funs_intros] = rel_if rel_fail

lemma funs_lists: "rel m sameBlockLists \<Longrightarrow> rel m sameFuns"
proof (erule rel_weaken)
  fix s s' assume "sameBlockLists s s'"
  then have "length (map basicBlocks (functionList s')) = length (map basicBlocks (functionList s))"
    unfolding sameBlockLists_def by simp
  then show "sameFuns s s'" by (simp add: sameFuns_def)
qed

lemmas [funs_intros] = lists_prims [THEN funs_lists] lists_anon [THEN funs_lists]
  lists_extern [THEN funs_lists] lists_emitParameters [THEN funs_lists]

lemma funs_prims [funs_intros]:
  "rel (createBasicBlock f) sameFuns"
  "rel (setInsertionBlock b) sameFuns"
  "rel (setLocation l) sameFuns"
  "rel getFunction sameFuns"
  "rel (getFunctionRec f) sameFuns"
  "rel (getThisParameter f) sameFuns"
  "rel (getInst t) sameFuns"
  "rel (getNumUsers b) sameFuns"
  "rel (hasUser b t) sameFuns"
  "rel (moveFirstBefore b t) sameFuns"
  "rel (eraseInst t) sameFuns"
  "rel (eraseBlock b) sameFuns"
  "rel (modifyR (updFunction f g)) sameFuns"
  "rel (lookupName n) sameFuns"
  "rel (getNameFieldFromID i) sameFuns"
  "rel (FunctionContext_ctor f si) sameFuns"
  "rel FunctionContext_dtor sameFuns"
  "rel (createGlobalObjectProperty n d) sameFuns"
  by (rule relI;
      auto simp: monad_defs builder_defs sameFuns_def getInst_def getNumUsers_def hasUser_def
        moveFirstBefore_def eraseInst_def eraseBlock_def lookupName_def getNameFieldFromID_def
        FunctionContext_ctor_def FunctionContext_dtor_def Let_def
      split: option.splits list.splits if_splits sum.splits)+

lemma funs_store [funs_intros]:
  "rel (emitStore v p) sameFuns" "rel (emitLoad p) sameFuns"
  "rel (genResumeGenerator v b) sameFuns"
  unfolding emitStore_def emitLoad_def genResumeGenerator_def
  by (auto intro!: funs_intros split: Value.splits)

lemma funs_declare [funs_intros]: "rel (declareVariableOrGlobalProperty f n) sameFuns"
  by (rule relI)
    (auto simp: declareVariableOrGlobalProperty_def monad_defs builder_defs sameFuns_def
      lookupName_def insertName_def Let_def
      split: option.splits list.splits if_splits sum.splits Value.splits)

lemma funs_hoist [funs_intros]: "rel (hoistVarDecls f ns) sameFuns"
  by (induction ns) (auto intro!: funs_intros split: Value.splits)

lemma funs_declareClosures [funs_intros]: "rel (declareClosures f cs) sameFuns"
  by (induction cs) (auto intro!: funs_intros)

lemma funs_initCapture [funs_intros]: "rel initCaptureStateInES5Function sameFuns"
  unfolding initCaptureStateInES5Function_def
  by (auto intro!: funs_intros simp: Let_def split: option.splits)

lemma funs_moveAll: "rel (moveAllBefore k nb t) sameFuns"
proof (induction k)
  case 0
  show ?case by (rule relI) (auto simp: sameFuns_def split: if_splits)
next
  case (Suc k)
  have "rel (thenR (moveFirstBefore nb t) (moveAllBefore k nb t)) sameFuns"
    by (intro funs_intros Suc)
  then show ?case
    unfolding rel_def by (auto simp: sameFuns_def split: if_splits)
qed

lemma funs_epilogue [funs_intros]: "rel (emitFunctionEpilogue rv) sameFuns"
proof -
  have len: "rel (\<lambda>s. Inr (length (bbInsts (blocks s ! nb)), s)) sameFuns" for nb
    by (rule relI) (auto simp: sameFuns_def)
  have "rel (mergeEntryAndNextBlock nb t) sameFuns" for nb t
    unfolding mergeEntryAndNextBlock_def
    by (intro funs_intros len funs_moveAll)
  then show ?thesis
    unfolding emitFunctionEpilogue_def
    by (auto intro!: funs_intros simp: Let_def split: option.splits)
qed





subsection \<open>The two functions of a generator\<close>





end
